theory Spec2Isabelle
  imports Main "HOL-Library.Word"
begin

unbundle bit_operations_syntax

section \<open>Data model of the boot image writer (bootimage.cpp)\<close>

text \<open>
  \<open>unsigned\<close> is a 32-bit word: every sum, difference and product of the source that is
  computed in \<open>unsigned\<close> wraps here as it does there. Host pointers to VM objects are
  natural numbers, \<open>0\<close> being the null object. Memory (the heap buffer, the code buffer,
  the bytes of a host object) is a function from byte addresses, relative to the start of
  the buffer, to bytes.
\<close>

type_synonym byte = "8 word"
type_synonym unsigned = "32 word"
type_synonym object = nat
type_synonym memory = "nat \<Rightarrow> byte"

datatype Type =
    Type_none
  | Type_object
  | Type_int8_t
  | Type_uint8_t
  | Type_int16_t
  | Type_uint16_t
  | Type_int32_t
  | Type_uint32_t
  | Type_intptr_t
  | Type_uintptr_t
  | Type_int64_t
  | Type_int64_t_pad
  | Type_uint64_t
  | Type_float
  | Type_double
  | Type_double_pad
  | Type_word
  | Type_array

record Field =
  field_type :: Type
  field_offset :: unsigned
  field_targetOffset :: unsigned

datatype Kind = NormalKind | SingletonKind | PoolKind

text \<open>
  A \<open>TypeMap\<close> is followed in memory by the table \<open>targetFixedOffsets()\<close>, indexed by build
  byte offset and holding \<open>buildFixedSizeInWords * BytesPerWord\<close> entries, and then by the
  array \<open>fixedFields()\<close>; both are lists here.
\<close>

record TypeMap =
  buildFixedSizeInWords :: unsigned
  targetFixedSizeInWords :: unsigned
  fixedFieldCount :: unsigned
  buildArrayElementSizeInBytes :: unsigned
  targetArrayElementSizeInBytes :: unsigned
  arrayElementType :: Type
  kind :: Kind
  targetFixedOffsets :: "unsigned list"
  fixedFields :: "Field list"

text \<open>
  The ways the writer stops: \<open>expect\<close> and \<open>abort\<close> end the process, named here after the
  error kinds of the specification. \<open>Undefined\<close> marks what the source does not guard
  (a missing type map, a read past a table, a division by zero).
\<close>

datatype error =
    MalformedClass
  | UnsupportedLayout
  | CapacityExceeded
  | InvariantViolation
  | StreamError
  | Undefined

definition ebind :: "error + 'a \<Rightarrow> ('a \<Rightarrow> error + 'b) \<Rightarrow> error + 'b" where
  "ebind x f = (case x of Inl e \<Rightarrow> Inl e | Inr v \<Rightarrow> f v)"

text \<open>
  Modelled from the spec: the field codes of the VM (machine.h), "object, byte/bool,
  char/short, int/float, long/double"; \<open>OtherField\<close> stands for any code outside this set.
\<close>

datatype FieldCode =
    ObjectField
  | ByteField
  | BooleanField
  | CharField
  | ShortField
  | FloatField
  | IntField
  | LongField
  | DoubleField
  | OtherField

text \<open>
  The constants and helpers that bootimage.cpp takes from headers outside the source tree
  (common.h, target.h, machine.h, heap.h, bootimage.h, constants.h) are parameters.
  \<open>hostBigEndian\<close> is the byte order of the build machine, \<open>targetOpposite\<close> says that the
  target's byte order is the other one (the \<open>TARGET_V*\<close> macros swap bytes exactly then).
\<close>

record config =
  BytesPerWord :: unsigned
  TargetBytesPerWord :: unsigned
  TargetBitsPerWord :: unsigned
  hostBigEndian :: bool
  targetOpposite :: bool
  PointerMask :: int
  FixedMark :: int
  BootShift :: nat
  BootHeapOffset :: unsigned
  BootFlatConstant :: unsigned
  FixieTenureThreshold :: unsigned
  ClassStaticTable :: unsigned
  singletonMaskSize :: "unsigned \<Rightarrow> unsigned \<Rightarrow> unsigned"
  poolMaskSize :: "unsigned \<Rightarrow> unsigned \<Rightarrow> unsigned"
  fieldSize :: "FieldCode \<Rightarrow> unsigned"
  ACC_STATIC :: "16 word"
  CONSTANT_Class :: byte
  CONSTANT_String :: byte
  CONSTANT_Integer :: byte
  CONSTANT_Float :: byte
  CONSTANT_NameAndType :: byte
  CONSTANT_Fieldref :: byte
  CONSTANT_Methodref :: byte
  CONSTANT_InterfaceMethodref :: byte
  CONSTANT_Long :: byte
  CONSTANT_Double :: byte
  CONSTANT_Utf8 :: byte

text \<open>
  The part of the VM the writer consults about a live object: its class, the type test
  \<open>instanceOf\<close>, the classes \<open>type(t, Machine::...)\<close> and the object's own bytes.
\<close>

record machine =
  objectClass :: "object \<Rightarrow> object"
  instanceOf :: "object \<Rightarrow> object \<Rightarrow> bool"
  ClassType :: object
  SingletonType :: object
  SystemClassLoaderType :: object
  objectBody :: "object \<Rightarrow> memory"

text \<open>Modelled from the spec: \<open>ceiling\<close> (common.h), "\<open>ceiling(x, n) = (x + n - 1) / n\<close>".\<close>

definition ceiling :: "unsigned \<Rightarrow> unsigned \<Rightarrow> unsigned" where
  "ceiling n d = (n + d - 1) div d"

text \<open>
  The configurations the writer is built for: words of 4 or 8 bytes on the build machine
  and on the target, and 8 bits to the byte.
\<close>

definition wf_config :: "config \<Rightarrow> bool" where
  "wf_config cfg \<longleftrightarrow>
     (BytesPerWord cfg = 4 \<or> BytesPerWord cfg = 8) \<and>
     (TargetBytesPerWord cfg = 4 \<or> TargetBytesPerWord cfg = 8) \<and>
     TargetBitsPerWord cfg = 8 * TargetBytesPerWord cfg"

subsection \<open>Bytes and words in memory\<close>

definition memset :: "memory \<Rightarrow> nat \<Rightarrow> byte \<Rightarrow> nat \<Rightarrow> memory" where
  "memset m a v n = (\<lambda>x. if a \<le> x \<and> x < a + n then v else m x)"

definition store_bytes :: "memory \<Rightarrow> nat \<Rightarrow> byte list \<Rightarrow> memory" where
  "store_bytes m a bs = (\<lambda>x. if a \<le> x \<and> x < a + length bs then bs ! (x - a) else m x)"

definition load_bytes :: "memory \<Rightarrow> nat \<Rightarrow> nat \<Rightarrow> byte list" where
  "load_bytes m a n = map (\<lambda>k. m (a + k)) [0..<n]"

definition encodeLE :: "nat \<Rightarrow> int \<Rightarrow> byte list" where
  "encodeLE n v = map (\<lambda>k. word_of_int (drop_bit (8 * k) v)) [0..<n]"

definition decodeLE :: "byte list \<Rightarrow> int" where
  "decodeLE bs = horner_sum uint 256 bs"

text \<open>The bytes of an \<open>n\<close>-byte integer variable of the build machine, and back.\<close>

definition encode :: "config \<Rightarrow> nat \<Rightarrow> int \<Rightarrow> byte list" where
  "encode cfg n v = (if hostBigEndian cfg then rev (encodeLE n v) else encodeLE n v)"

definition decode :: "config \<Rightarrow> byte list \<Rightarrow> int" where
  "decode cfg bs = decodeLE (if hostBigEndian cfg then rev bs else bs)"

text \<open>
  Modelled from the spec: \<open>TARGET_V2\<close>, \<open>TARGET_V4\<close>, \<open>TARGET_V8\<close> and \<open>TARGET_VW\<close> (target.h),
  the "byte-swap primitives for 16/32/64/word values from host to target representation",
  on an \<open>n\<close>-byte value: the bytes are reversed when the target has the opposite byte
  order.
\<close>

definition TARGET_V :: "config \<Rightarrow> nat \<Rightarrow> int \<Rightarrow> int" where
  "TARGET_V cfg n v =
     (if targetOpposite cfg then decodeLE (rev (encodeLE n v)) else take_bit (8 * n) v)"

text \<open>An \<open>n\<close>-byte integer read from, and written to, memory by the build machine.\<close>

definition loadAt :: "config \<Rightarrow> nat \<Rightarrow> memory \<Rightarrow> nat \<Rightarrow> int" where
  "loadAt cfg n m a = decode cfg (load_bytes m a n)"

definition storeAt :: "config \<Rightarrow> nat \<Rightarrow> memory \<Rightarrow> nat \<Rightarrow> int \<Rightarrow> memory" where
  "storeAt cfg n m a v = store_bytes m a (encode cfg n v)"

text \<open>\<open>heap[i]\<close> for a pointer to target words.\<close>

definition loadWord :: "config \<Rightarrow> memory \<Rightarrow> nat \<Rightarrow> int" where
  "loadWord cfg m i =
     loadAt cfg (unat (TargetBytesPerWord cfg)) m (i * unat (TargetBytesPerWord cfg))"

definition storeWord :: "config \<Rightarrow> memory \<Rightarrow> nat \<Rightarrow> int \<Rightarrow> memory" where
  "storeWord cfg m i v =
     storeAt cfg (unat (TargetBytesPerWord cfg)) m (i * unat (TargetBytesPerWord cfg)) v"

text \<open>\<open>cast<uintptr_t>(p, offset)\<close>: the host word at a byte offset of a host object.\<close>

definition cast_uintptr :: "config \<Rightarrow> memory \<Rightarrow> nat \<Rightarrow> int" where
  "cast_uintptr cfg m a = loadAt cfg (unat (BytesPerWord cfg)) m a"

text \<open>
  Modelled from the spec: \<open>markBit\<close> (common.h), "set bit \<open>slot\<close> in the heap bitmap". A
  bitmap is the set of the indices of its set bits.
\<close>

definition markBit :: "nat set \<Rightarrow> unsigned \<Rightarrow> nat set" where
  "markBit m i = insert (unat i) m"

subsection \<open>Size and offset calculator\<close>

text \<open>
  \<open>typeMap\<close>: a singleton is looked up by itself, any other object by its class. The
  source dereferences the result of \<open>hashMapFind\<close> unchecked; a missing entry is
  \<open>Undefined\<close> here.
\<close>

definition typeMap :: "machine \<Rightarrow> (object \<rightharpoonup> TypeMap) \<Rightarrow> object \<Rightarrow> error + TypeMap" where
  "typeMap vm typeMaps p =
     (case (if objectClass vm p = SingletonType vm then typeMaps p
            else typeMaps (objectClass vm p)) of
        None \<Rightarrow> Inl Undefined
      | Some m \<Rightarrow> Inr m)"

definition targetOffset ::
  "config \<Rightarrow> machine \<Rightarrow> (object \<rightharpoonup> TypeMap) \<Rightarrow> object \<Rightarrow> unsigned \<Rightarrow> error + unsigned" where
  "targetOffset cfg vm typeMaps p offset =
     ebind (typeMap vm typeMaps p) (\<lambda>m.
       if targetArrayElementSizeInBytes m \<noteq> 0
          \<and> offset \<ge> buildFixedSizeInWords m * BytesPerWord cfg
       then
         (if buildArrayElementSizeInBytes m = 0 then Inl Undefined
          else Inr ((targetFixedSizeInWords m * TargetBytesPerWord cfg)
                 + (((offset - (buildFixedSizeInWords m * BytesPerWord cfg))
                      div buildArrayElementSizeInBytes m)
                    * targetArrayElementSizeInBytes m)))
       else
         (if unat offset < length (targetFixedOffsets m)
          then Inr (targetFixedOffsets m ! unat offset)
          else Inl Undefined))"

text \<open>
  The array length is a host word; its product with the element size is passed to
  \<open>ceiling\<close>, whose parameters are \<open>unsigned\<close>, so only its low 32 bits count.
\<close>

definition targetSize ::
  "config \<Rightarrow> machine \<Rightarrow> (object \<rightharpoonup> TypeMap) \<Rightarrow> object \<Rightarrow> error + unsigned" where
  "targetSize cfg vm typeMaps p =
     ebind (typeMap vm typeMaps p) (\<lambda>m.
       if targetArrayElementSizeInBytes m \<noteq> 0 then
         Inr (targetFixedSizeInWords m
              + ceiling (word_of_int (uint (targetArrayElementSizeInBytes m)
                                      * cast_uintptr cfg (objectBody vm p)
                                          (unat ((buildFixedSizeInWords m - 1)
                                                 * BytesPerWord cfg))))
                        (TargetBytesPerWord cfg))
       else
         (case kind m of
            NormalKind \<Rightarrow> Inr (targetFixedSizeInWords m)
          | SingletonKind \<Rightarrow>
              Inr (targetFixedSizeInWords m
                   + singletonMaskSize cfg (targetFixedSizeInWords m - 2) (TargetBitsPerWord cfg))
          | PoolKind \<Rightarrow>
              (let maskSize = poolMaskSize cfg (targetFixedSizeInWords m - 2)
                                (TargetBitsPerWord cfg)
               in Inr (targetFixedSizeInWords m + maskSize
                       + singletonMaskSize cfg (targetFixedSizeInWords m - 2 + maskSize)
                           (TargetBitsPerWord cfg)))))"

subsection \<open>Field transcoder\<close>

text \<open>
  \<open>copy(t, src, dst, type)\<close>: one field, from the bytes of the host object at \<open>s\<close> to the
  heap buffer at \<open>d\<close>. A host \<open>intptr_t\<close> is signed, so it is sign-extended when the target
  word is wider. The \<open>default\<close> branch aborts.
\<close>

definition copy :: "config \<Rightarrow> memory \<Rightarrow> nat \<Rightarrow> memory \<Rightarrow> nat \<Rightarrow> Type \<Rightarrow> error + memory" where
  "copy cfg src s dst d type =
     (case type of
        Type_int8_t \<Rightarrow> Inr (store_bytes dst d (load_bytes src s 1))
      | Type_int16_t \<Rightarrow> Inr (storeAt cfg 2 dst d (TARGET_V cfg 2 (loadAt cfg 2 src s)))
      | Type_int32_t \<Rightarrow> Inr (storeAt cfg 4 dst d (TARGET_V cfg 4 (loadAt cfg 4 src s)))
      | Type_float \<Rightarrow> Inr (storeAt cfg 4 dst d (TARGET_V cfg 4 (loadAt cfg 4 src s)))
      | Type_int64_t \<Rightarrow> Inr (storeAt cfg 8 dst d (TARGET_V cfg 8 (loadAt cfg 8 src s)))
      | Type_double \<Rightarrow> Inr (storeAt cfg 8 dst d (TARGET_V cfg 8 (loadAt cfg 8 src s)))
      | Type_int64_t_pad \<Rightarrow> Inr dst
      | Type_double_pad \<Rightarrow> Inr dst
      | Type_intptr_t \<Rightarrow>
          Inr (storeAt cfg (unat (TargetBytesPerWord cfg)) dst d
                 (TARGET_V cfg (unat (TargetBytesPerWord cfg))
                    (signed_take_bit (8 * unat (BytesPerWord cfg) - 1)
                       (loadAt cfg (unat (BytesPerWord cfg)) src s))))
      | Type_object \<Rightarrow> Inr (memset dst d 0 (unat (TargetBytesPerWord cfg)))
      | _ \<Rightarrow> Inl UnsupportedLayout)"

fun foldE :: "('a \<Rightarrow> 's \<Rightarrow> error + 's) \<Rightarrow> 'a list \<Rightarrow> 's \<Rightarrow> error + 's" where
  "foldE f [] s = Inr s"
| "foldE f (x # xs) s = ebind (f x s) (foldE f xs)"

text \<open>\<open>reinterpret_cast<uint32_t*>(mask)[k] |= bits\<close>, for a mask at byte address \<open>a\<close>.\<close>

definition or32 :: "config \<Rightarrow> memory \<Rightarrow> nat \<Rightarrow> nat \<Rightarrow> int \<Rightarrow> memory" where
  "or32 cfg m a k bits = storeAt cfg 4 m (a + 4 * k) (loadAt cfg 4 m (a + 4 * k) OR bits)"

text \<open>\<open>reinterpret_cast<target_uintptr_t*>(mask)[k] |= bits\<close>.\<close>

definition orWord :: "config \<Rightarrow> memory \<Rightarrow> nat \<Rightarrow> nat \<Rightarrow> int \<Rightarrow> memory" where
  "orWord cfg m a k bits =
     storeAt cfg (unat (TargetBytesPerWord cfg)) m (a + unat (TargetBytesPerWord cfg) * k)
       (loadAt cfg (unat (TargetBytesPerWord cfg)) m (a + unat (TargetBytesPerWord cfg) * k)
        OR bits)"

text \<open>
  \<open>copy(t, typeMaps, p, dst)\<close>: the whole object, to the heap buffer at byte address \<open>dst\<close>.
  \<open>DebugNativeTarget\<close> is \<open>false\<close>, so the cross-checks it guards are not part of the model,
  and the test \<open>field->type > Type_array\<close> never holds for a value of the enumeration.
  The loops over \<open>fixedFields()\<close> read \<open>fixedFieldCount\<close> entries; a map with fewer is
  \<open>Undefined\<close>.
\<close>

definition copyObject ::
  "config \<Rightarrow> machine \<Rightarrow> (object \<rightharpoonup> TypeMap) \<Rightarrow> object \<Rightarrow> memory \<Rightarrow> nat \<Rightarrow> error + memory" where
  "copyObject cfg vm typeMaps p heap0 dst =
     ebind (typeMap vm typeMaps p) (\<lambda>m.
       let src = objectBody vm p;
           fields = take (unat (fixedFieldCount m)) (fixedFields m)
       in
       if length (fixedFields m) < unat (fixedFieldCount m) then Inl Undefined
       else
       ebind (foldE (\<lambda>field h. copy cfg src (unat (field_offset field))
                                  h (dst + unat (field_targetOffset field)) (field_type field))
                    fields heap0) (\<lambda>h1.
         if targetArrayElementSizeInBytes m \<noteq> 0 then
           (let fixedSize = buildFixedSizeInWords m * BytesPerWord cfg;
                count = (word_of_int (cast_uintptr cfg src (unat (fixedSize - BytesPerWord cfg)))
                          :: unsigned)
            in foldE (\<lambda>i h. copy cfg src
                               (unat fixedSize + unat (i * buildArrayElementSizeInBytes m))
                               h
                               (dst + unat (targetFixedSizeInWords m * TargetBytesPerWord cfg)
                                + unat (i * targetArrayElementSizeInBytes m))
                               (arrayElementType m))
                     (map word_of_nat [0..<unat count]) h1)
         else
           (case kind m of
              NormalKind \<Rightarrow> Inr h1
            | SingletonKind \<Rightarrow>
                (let mask' = dst + unat (targetFixedSizeInWords m * TargetBytesPerWord cfg);
                     h2 = memset h1 mask' 0
                            (unat (singletonMaskSize cfg (targetFixedSizeInWords m - 2)
                                     (TargetBitsPerWord cfg)
                                   * TargetBytesPerWord cfg))
                 in Inr (fold (\<lambda>field h.
                                 if field_type field = Type_object then
                                   (let offset = field_targetOffset field
                                                 div TargetBytesPerWord cfg
                                    in or32 cfg h mask' (unat (offset div 32))
                                         (push_bit (unat (offset mod 32)) 1))
                                 else h)
                              fields h2))
            | PoolKind \<Rightarrow>
                (let poolMaskSize' = poolMaskSize cfg (targetFixedSizeInWords m - 2)
                                       (TargetBitsPerWord cfg);
                     poolMask = dst + unat (targetFixedSizeInWords m * TargetBytesPerWord cfg);
                     h2 = memset h1 poolMask 0 (unat (poolMaskSize' * TargetBytesPerWord cfg));
                     objectMask = dst + unat ((targetFixedSizeInWords m + poolMaskSize')
                                              * TargetBytesPerWord cfg);
                     h3 = memset h2 objectMask 0
                            (unat (singletonMaskSize cfg
                                     (targetFixedSizeInWords m - 2 + poolMaskSize')
                                     (TargetBitsPerWord cfg)
                                   * TargetBytesPerWord cfg))
                 in Inr (fold (\<lambda>(i, field) h.
                                 if field_type field = Type_object then
                                   or32 cfg h objectMask (i div 32) (push_bit (i mod 32) 1)
                                 else if field_type field = Type_float
                                         \<or> field_type field = Type_double then
                                   orWord cfg h poolMask (i div unat (TargetBitsPerWord cfg))
                                     (push_bit (i mod unat (TargetBitsPerWord cfg)) 1)
                                 else h)
                              (zip [0..<length fields] fields) h3)))))"

subsection \<open>Heap-walk visitor\<close>

record Visitor =
  currentObject :: object
  currentNumber :: unsigned
  currentOffset :: unsigned
  heap :: memory
  bitmap :: "nat set"
  position :: unsigned
  capacity :: unsigned

definition TargetFixieSizeInBytes :: "config \<Rightarrow> unsigned" where
  "TargetFixieSizeInBytes cfg = 8 + (TargetBytesPerWord cfg * 2)"

definition TargetFixieSizeInWords :: "config \<Rightarrow> unsigned" where
  "TargetFixieSizeInWords cfg = ceiling (TargetFixieSizeInBytes cfg) (TargetBytesPerWord cfg)"

definition TargetFixieAge :: nat where "TargetFixieAge = 0"
definition TargetFixieHasMask :: nat where "TargetFixieHasMask = 1"
definition TargetFixieSize :: nat where "TargetFixieSize = 4"

text \<open>\<open>Visitor::visit\<close>: the back-pointer patch (the field \<open>map\<close> of the source is \<open>bitmap\<close>).\<close>

definition visit ::
  "config \<Rightarrow> machine \<Rightarrow> (object \<rightharpoonup> TypeMap) \<Rightarrow> unsigned \<Rightarrow> Visitor \<Rightarrow> error + Visitor" where
  "visit cfg vm typeMaps number v =
     (if currentObject v \<noteq> 0 then
        ebind (targetOffset cfg vm typeMaps (currentObject v)
                 (currentOffset v * BytesPerWord cfg)) (\<lambda>to.
          let offset = currentNumber v - 1 + (to div TargetBytesPerWord cfg);
              mark = (word_of_int (loadWord cfg (heap v) (unat offset) AND NOT (PointerMask cfg))
                       :: unsigned);
              value = number OR (push_bit (BootShift cfg) mark)
          in Inr (v\<lparr>bitmap := (if value \<noteq> 0 then markBit (bitmap v) offset else bitmap v),
                     heap := storeWord cfg (heap v) (unat offset) (uint value)\<rparr>))
      else Inr v)"


text \<open>The condition under which \<open>visitNew\<close> allocates \<open>p\<close> as a fixed object.\<close>

definition isFixed :: "config \<Rightarrow> machine \<Rightarrow> Visitor \<Rightarrow> object \<Rightarrow> bool" where
  "isFixed cfg vm v p \<longleftrightarrow>
     (currentObject v \<noteq> 0
      \<and> objectClass vm (currentObject v) = ClassType vm
      \<and> (currentOffset v * BytesPerWord cfg) = ClassStaticTable cfg)
     \<or> instanceOf vm (SystemClassLoaderType vm) p"

text \<open>The branch of \<open>visitNew\<close> for a fixed object (before the final \<open>visit(number)\<close>).\<close>

definition visitNew_fixed ::
  "config \<Rightarrow> machine \<Rightarrow> (object \<rightharpoonup> TypeMap) \<Rightarrow> object \<Rightarrow> unsigned \<Rightarrow> Visitor
     \<Rightarrow> error + (unsigned \<times> Visitor)" where
  "visitNew_fixed cfg vm typeMaps p size' v =
     (let dst = unat (position v) + unat (TargetFixieSizeInWords cfg);
          maskSize = ceiling size' (TargetBytesPerWord cfg);
          total = TargetFixieSizeInWords cfg + size' + maskSize
      in
      if position v + total < capacity v then
        (let base = unat (position v) * unat (TargetBytesPerWord cfg);
             h1 = memset (heap v) base 0 (unat (TargetFixieSizeInBytes cfg));
             age = (ucast (FixieTenureThreshold cfg + 1) :: byte);
             h2 = store_bytes h1 (base + TargetFixieAge) [age];
             hasMask = (1 :: byte);
             h3 = store_bytes h2 (base + TargetFixieHasMask) [hasMask];
             targetSize' = TARGET_V cfg 4 (uint size');
             h4 = storeAt cfg 4 h3 (base + TargetFixieSize) targetSize'
         in
         ebind (copyObject cfg vm typeMaps p h4 (dst * unat (TargetBytesPerWord cfg))) (\<lambda>h5.
           let h6 = storeWord cfg h5 dst (loadWord cfg h5 dst OR FixedMark cfg);
               h7 = memset h6
                      ((unat (position v) + unat (TargetFixieSizeInWords cfg) + unat size')
                       * unat (TargetBytesPerWord cfg))
                      0 (unat (maskSize * TargetBytesPerWord cfg))
           in Inr (word_of_nat dst + 1, v\<lparr>heap := h7, position := position v + total\<rparr>)))
      else Inl CapacityExceeded)"

text \<open>The branch of \<open>visitNew\<close> for a plain object.\<close>

definition visitNew_plain ::
  "config \<Rightarrow> machine \<Rightarrow> (object \<rightharpoonup> TypeMap) \<Rightarrow> object \<Rightarrow> unsigned \<Rightarrow> Visitor
     \<Rightarrow> error + (unsigned \<times> Visitor)" where
  "visitNew_plain cfg vm typeMaps p size' v =
     (if position v + size' < capacity v then
        ebind (copyObject cfg vm typeMaps p (heap v)
                 (unat (position v) * unat (TargetBytesPerWord cfg))) (\<lambda>h.
          Inr (position v + 1, v\<lparr>heap := h, position := position v + size'\<rparr>))
      else Inl CapacityExceeded)"

definition visitNew ::
  "config \<Rightarrow> machine \<Rightarrow> (object \<rightharpoonup> TypeMap) \<Rightarrow> object \<Rightarrow> Visitor
     \<Rightarrow> error + (unsigned \<times> Visitor)" where
  "visitNew cfg vm typeMaps p v =
     (if p \<noteq> 0 then
        ebind (targetSize cfg vm typeMaps p) (\<lambda>size'.
          ebind (if isFixed cfg vm v p
                 then visitNew_fixed cfg vm typeMaps p size' v
                 else visitNew_plain cfg vm typeMaps p size' v) (\<lambda>(number, v1).
            ebind (visit cfg vm typeMaps number v1) (\<lambda>v2. Inr (number, v2))))
      else Inr (0, v))"

definition visitOld ::
  "config \<Rightarrow> machine \<Rightarrow> (object \<rightharpoonup> TypeMap) \<Rightarrow> object \<Rightarrow> unsigned \<Rightarrow> Visitor
     \<Rightarrow> error + Visitor" where
  "visitOld cfg vm typeMaps p number v = visit cfg vm typeMaps number v"






subsection \<open>Code-constant resolver\<close>

text \<open>
  Modelled from the spec: a listener (assembler.h) as a "\<open>(location, flat_flag)\<close> record",
  which is what \<open>pl->resolve(0, &location)\<close> yields: the place of the immediate, as a byte
  offset from \<open>code\<close> (negative when it lies before the code buffer), and the flat flag.
\<close>

record Listener =
  location :: int
  flat :: bool

text \<open>
  The body of the inner loop of \<open>updateConstants\<close>. The bit index handed to \<open>markBit\<close> is
  \<open>location - code\<close>, converted to \<open>unsigned\<close>.
\<close>

definition resolveListener ::
  "config \<Rightarrow> unsigned \<Rightarrow> Listener \<Rightarrow> memory \<times> nat set \<Rightarrow> error + (memory \<times> nat set)" where
  "resolveListener cfg target pl cm =
     (let offset = target OR BootHeapOffset cfg;
          offset = (if flat pl then offset OR BootFlatConstant cfg else offset)
      in if location pl \<ge> 0 then
           Inr (storeAt cfg (unat (TargetBytesPerWord cfg)) (fst cm) (nat (location pl))
                  (uint offset),
                markBit (snd cm) (word_of_int (location pl)))
         else Inl InvariantViolation)"

text \<open>
  The body of the outer loop of \<open>updateConstants\<close>, for one triple of \<open>constants\<close>: a heap
  object with the listeners chained off its promise; \<open>heapTable\<close> is \<open>heapTable->find\<close>.
\<close>

definition resolveConstant ::
  "config \<Rightarrow> (object \<Rightarrow> unsigned) \<Rightarrow> object \<times> Listener list \<Rightarrow> memory \<times> nat set
     \<Rightarrow> error + (memory \<times> nat set)" where
  "resolveConstant cfg heapTable c cm =
     (let target = heapTable (fst c)
      in if target > 0 then foldE (resolveListener cfg target) (snd c) cm
         else Inl InvariantViolation)"

definition updateConstants ::
  "config \<Rightarrow> (object \<times> Listener list) list \<Rightarrow> memory \<Rightarrow> nat set \<Rightarrow> (object \<Rightarrow> unsigned)
     \<Rightarrow> error + (memory \<times> nat set)" where
  "updateConstants cfg constants code codeMap heapTable =
     foldE (resolveConstant cfg heapTable) constants (code, codeMap)"

section \<open>TypeMap builders\<close>

text \<open>
  The loop that fills a fresh \<open>TypeMap\<close>, written three times in the source (for the
  pool, for the members and statics of a class, and for the VM's own types): every
  entry carries the outcome of its \<open>expect\<close>, the field's type and its two offsets. The
  table has \<open>buildFixedSizeInWords * BytesPerWord\<close> entries, as \<open>sizeInBytes\<close> allots.
\<close>

definition newTypeMap ::
  "config \<Rightarrow> unsigned \<Rightarrow> unsigned \<Rightarrow> unsigned \<Rightarrow> Kind \<Rightarrow> unsigned \<Rightarrow> unsigned \<Rightarrow> Type \<Rightarrow> TypeMap" where
  "newTypeMap cfg bfs tfs count k baes taes aet =
     \<lparr>buildFixedSizeInWords = bfs, targetFixedSizeInWords = tfs, fixedFieldCount = count,
      buildArrayElementSizeInBytes = baes, targetArrayElementSizeInBytes = taes,
      arrayElementType = aet, kind = k,
      targetFixedOffsets = replicate (unat (bfs * BytesPerWord cfg)) 0,
      fixedFields = []\<rparr>"

fun installFields :: "(bool \<times> Type \<times> unsigned \<times> unsigned) list \<Rightarrow> TypeMap \<Rightarrow> error + TypeMap" where
  "installFields [] m = Inr m"
| "installFields ((ok, ty, bo, to) # rest) m =
     (if \<not> ok then Inl InvariantViolation
      else if unat bo < length (targetFixedOffsets m) then
        installFields rest
          (m\<lparr>targetFixedOffsets := (targetFixedOffsets m)[unat bo := to],
             fixedFields := fixedFields m
                            @ [\<lparr>field_type = ty, field_offset = bo, field_targetOffset = to\<rparr>]\<rparr>)
      else Inl Undefined)"

subsection \<open>From the constant pool of a class file\<close>

text \<open>
  Modelled from the spec: \<open>Stream\<close> (stream.h), which "reads the class file's magic, skips
  minor/major, reads the pool count". A stream is the list of its unread bytes; the
  multi-byte reads are big-endian, as the class file format is; a read or skip past the
  end calls \<open>handleError\<close>, which aborts.
\<close>

type_synonym stream = "byte list"

definition read1 :: "stream \<Rightarrow> error + (byte \<times> stream)" where
  "read1 s = (case s of [] \<Rightarrow> Inl StreamError | b # bs \<Rightarrow> Inr (b, bs))"

definition read2 :: "stream \<Rightarrow> error + (16 word \<times> stream)" where
  "read2 s =
     (case s of
        b1 # b0 # bs \<Rightarrow> Inr (word_of_int (decodeLE [b0, b1]), bs)
      | _ \<Rightarrow> Inl StreamError)"

definition read4 :: "stream \<Rightarrow> error + (32 word \<times> stream)" where
  "read4 s =
     (case s of
        b3 # b2 # b1 # b0 # bs \<Rightarrow> Inr (word_of_int (decodeLE [b0, b1, b2, b3]), bs)
      | _ \<Rightarrow> Inl StreamError)"

definition skip :: "nat \<Rightarrow> stream \<Rightarrow> error + stream" where
  "skip n s = (if n \<le> length s then Inr (drop n s) else Inl StreamError)"

text \<open>
  The loop over the pool entries, \<open>i\<close> running from 2 up to \<open>n = count + 2\<close>, the length of
  the array \<open>types\<close>. A \<open>Long\<close> or \<open>Double\<close> in the last slot writes its pad one past the
  end of \<open>types\<close>, which is \<open>Undefined\<close> here.
\<close>

function poolTypes ::
  "config \<Rightarrow> nat \<Rightarrow> nat \<Rightarrow> Type list \<Rightarrow> stream \<Rightarrow> error + (Type list \<times> stream)" where
  "poolTypes cfg n i types s =
     (if i < n then
        (case read1 s of
           Inl e \<Rightarrow> Inl e
         | Inr (tag, s1) \<Rightarrow>
             if tag = CONSTANT_Class cfg \<or> tag = CONSTANT_String cfg then
               (case skip 2 s1 of
                  Inl e \<Rightarrow> Inl e
                | Inr s2 \<Rightarrow> poolTypes cfg n (i + 1) (types[i := Type_object]) s2)
             else if tag = CONSTANT_Integer cfg \<or> tag = CONSTANT_Float cfg then
               (case skip 4 s1 of
                  Inl e \<Rightarrow> Inl e
                | Inr s2 \<Rightarrow> poolTypes cfg n (i + 1) (types[i := Type_int32_t]) s2)
             else if tag = CONSTANT_NameAndType cfg \<or> tag = CONSTANT_Fieldref cfg
                     \<or> tag = CONSTANT_Methodref cfg \<or> tag = CONSTANT_InterfaceMethodref cfg then
               (case skip 4 s1 of
                  Inl e \<Rightarrow> Inl e
                | Inr s2 \<Rightarrow> poolTypes cfg n (i + 1) (types[i := Type_object]) s2)
             else if tag = CONSTANT_Long cfg then
               (if i + 1 < n then
                  (case skip 8 s1 of
                     Inl e \<Rightarrow> Inl e
                   | Inr s2 \<Rightarrow>
                       poolTypes cfg n (i + 2)
                         (types[i := Type_int64_t, i + 1 := Type_int64_t_pad]) s2)
                else Inl Undefined)
             else if tag = CONSTANT_Double cfg then
               (if i + 1 < n then
                  (case skip 8 s1 of
                     Inl e \<Rightarrow> Inl e
                   | Inr s2 \<Rightarrow>
                       poolTypes cfg n (i + 2)
                         (types[i := Type_double, i + 1 := Type_double_pad]) s2)
                else Inl Undefined)
             else if tag = CONSTANT_Utf8 cfg then
               (case read2 s1 of
                  Inl e \<Rightarrow> Inl e
                | Inr (len, s2) \<Rightarrow>
                    (case skip (unat len) s2 of
                       Inl e \<Rightarrow> Inl e
                     | Inr s3 \<Rightarrow> poolTypes cfg n (i + 1) (types[i := Type_object]) s3))
             else Inl MalformedClass)
      else Inr (types, s))"
  by pat_completeness auto
termination
  by (relation "measure (\<lambda>(cfg, n, i, types, s). n - i)") auto

declare poolTypes.simps [simp del]

text \<open>
  The block \<open>if (count) { ... }\<close> of \<open>makeCodeImage\<close>: \<open>None\<close> when the pool is empty
  (\<open>count = 0\<close>), else the pool's type map. \<open>count\<close> is \<open>unsigned\<close>: a pool count of 0 in
  the file makes it \<open>2^32 - 1\<close> and the array \<open>types\<close> one entry long, so that the write of
  \<open>types[1]\<close> is outside it.
\<close>

definition poolMap :: "config \<Rightarrow> unsigned \<Rightarrow> stream \<Rightarrow> error + TypeMap option" where
  "poolMap cfg count s =
     (if count \<noteq> 0 then
        (let n = unat (count + 2)
         in if n < 2 then Inl Undefined
            else
            ebind (poolTypes cfg n 2
                     ((replicate n Type_none)[0 := Type_object, 1 := Type_intptr_t]) s)
              (\<lambda>r.
                 ebind (installFields
                          (map (\<lambda>i. (word_of_nat i < count + 2, fst r ! i,
                                      word_of_nat i * BytesPerWord cfg,
                                      word_of_nat i * TargetBytesPerWord cfg))
                               [0..<n])
                          (newTypeMap cfg (count + 2) (count + 2) (count + 2) PoolKind
                             0 0 Type_none))
                   (\<lambda>m. Inr (Some m))))
      else Inr None)"

text \<open>
  The constant-pool part of \<open>makeCodeImage\<close> for one class file: the magic, the two
  versions, the pool count, and the pool.
\<close>

definition makePoolMap :: "config \<Rightarrow> stream \<Rightarrow> error + TypeMap option" where
  "makePoolMap cfg s =
     ebind (read4 s) (\<lambda>(magic, s1).
       if magic \<noteq> 0xCAFEBABE then Inl MalformedClass
       else
       ebind (read2 s1) (\<lambda>(minor, s2).
       ebind (read2 s2) (\<lambda>(major, s3).
       ebind (read2 s3) (\<lambda>(c, s4).
         let count = (ucast c - 1 :: unsigned)
         in poolMap cfg count s4))))"

subsection \<open>From the field table of a class\<close>

text \<open>\<open>while (x % n) ++x\<close> on \<open>unsigned\<close>; the callers rule out \<open>n = 0\<close>.\<close>

function alignLoop :: "unsigned \<Rightarrow> unsigned \<Rightarrow> unsigned" where
  "alignLoop x n = (if n \<noteq> 0 \<and> x mod n \<noteq> 0 then alignLoop (x + 1) n else x)"
  by pat_completeness auto
termination
proof (relation "measure (\<lambda>(x, n). if x = 0 then 0 else 2 ^ 32 - unat x)")
  show "wf (measure (\<lambda>(x :: unsigned, n :: unsigned). if x = 0 then 0 else 2 ^ 32 - unat x))"
    by simp
next
  fix x n :: unsigned
  assume "n \<noteq> 0 \<and> x mod n \<noteq> 0"
  then have nz: "x \<noteq> 0" by auto
  have lt: "unat x < 2 ^ 32" using unsigned_less [of x] by simp
  have "x + 1 \<noteq> 0 \<Longrightarrow> unat (x + 1) = Suc (unat x)"
    using unatSuc [of x] by (simp add: add.commute)
  with nz lt
  show "((x + 1, n), (x, n))
          \<in> measure (\<lambda>(x :: unsigned, n :: unsigned). if x = 0 then 0 else 2 ^ 32 - unat x)"
    by auto
qed

declare alignLoop.simps [simp del]

text \<open>A field of the class's field table, as the VM's accessors give it.\<close>

record VMField =
  fieldCode :: FieldCode
  fieldFlags :: "16 word"
  fieldOffset :: unsigned

text \<open>
  The arrays and running offsets of the loop over the field table. The arrays grow by
  one entry where the source writes at \<open>memberIndex\<close> or \<open>staticIndex\<close> and increments it.
\<close>

record FieldScan =
  memberTypes :: "Type list"
  buildMemberOffsets :: "unsigned list"
  targetMemberOffsets :: "unsigned list"
  buildMemberOffset :: unsigned
  targetMemberOffset :: unsigned
  staticTypes :: "Type list"
  buildStaticOffsets :: "unsigned list"
  targetStaticOffsets :: "unsigned list"
  buildStaticOffset :: unsigned
  targetStaticOffset :: unsigned

definition initFieldScan :: "config \<Rightarrow> FieldScan" where
  "initFieldScan cfg =
     \<lparr>memberTypes = [Type_object],
      buildMemberOffsets = [0],
      targetMemberOffsets = [0],
      buildMemberOffset = BytesPerWord cfg,
      targetMemberOffset = TargetBytesPerWord cfg,
      staticTypes = [Type_object, Type_intptr_t],
      buildStaticOffsets = [0, BytesPerWord cfg],
      targetStaticOffsets = [0, TargetBytesPerWord cfg],
      buildStaticOffset = BytesPerWord cfg * 2,
      targetStaticOffset = TargetBytesPerWord cfg * 2\<rparr>"

text \<open>The \<open>switch\<close> on the field code: the type tag and the size used for alignment.\<close>

definition fieldType :: "config \<Rightarrow> FieldCode \<Rightarrow> error + (Type \<times> unsigned)" where
  "fieldType cfg code =
     (let size' = fieldSize cfg code
      in case code of
           ObjectField \<Rightarrow> Inr (Type_object, TargetBytesPerWord cfg)
         | ByteField \<Rightarrow> Inr (Type_int8_t, size')
         | BooleanField \<Rightarrow> Inr (Type_int8_t, size')
         | CharField \<Rightarrow> Inr (Type_int8_t, size')
         | ShortField \<Rightarrow> Inr (Type_int8_t, size')
         | FloatField \<Rightarrow> Inr (Type_int32_t, size')
         | IntField \<Rightarrow> Inr (Type_int32_t, size')
         | LongField \<Rightarrow> Inr (Type_int64_t, size')
         | DoubleField \<Rightarrow> Inr (Type_int64_t, size')
         | OtherField \<Rightarrow> Inl UnsupportedLayout)"

text \<open>One iteration of the loop over the field table; a size of 0 divides by zero.\<close>

definition scanField :: "config \<Rightarrow> VMField \<Rightarrow> FieldScan \<Rightarrow> error + FieldScan" where
  "scanField cfg field st =
     ebind (fieldType cfg (fieldCode field)) (\<lambda>(type, size').
       if size' = 0 then Inl Undefined
       else if fieldFlags field AND ACC_STATIC cfg \<noteq> 0 then
         (let aligned = alignLoop (targetStaticOffset st) size'
          in Inr (st\<lparr>staticTypes := staticTypes st @ [type],
                        targetStaticOffsets := targetStaticOffsets st @ [aligned],
                        targetStaticOffset := aligned + size',
                        buildStaticOffset := fieldOffset field,
                        buildStaticOffsets := buildStaticOffsets st @ [fieldOffset field]\<rparr>))
       else
         (let aligned = alignLoop (targetMemberOffset st) size'
          in Inr (st\<lparr>memberTypes := memberTypes st @ [type],
                        targetMemberOffsets := targetMemberOffsets st @ [aligned],
                        targetMemberOffset := aligned + size',
                        buildMemberOffset := fieldOffset field,
                        buildMemberOffsets := buildMemberOffsets st @ [fieldOffset field]\<rparr>)))"

text \<open>
  The field-table part of \<open>makeCodeImage\<close> for a class with a field table: the map of the
  instance layout and, when the class has a static table, the map of that table.
  \<open>fixedSize\<close> is \<open>classFixedSize(t, c)\<close>; \<open>statics\<close> is \<open>singletonCount\<close> of the static table.
\<close>

definition makeFieldMaps ::
  "config \<Rightarrow> unsigned \<Rightarrow> unsigned option \<Rightarrow> VMField list \<Rightarrow> error + (TypeMap \<times> TypeMap option)" where
  "makeFieldMaps cfg fixedSize statics fieldTable =
     ebind (foldE (scanField cfg) fieldTable (initFieldScan cfg)) (\<lambda>st.
       let memberIndex = length (memberTypes st);
           staticIndex = length (staticTypes st);
           map0 = newTypeMap cfg (ceiling fixedSize (BytesPerWord cfg))
                    (ceiling (targetMemberOffset st) (TargetBytesPerWord cfg))
                    (word_of_nat memberIndex) NormalKind 0 0 Type_none
       in
       ebind (installFields
                (map (\<lambda>i. (buildMemberOffsets st ! i
                              < buildFixedSizeInWords map0 * BytesPerWord cfg,
                            memberTypes st ! i, buildMemberOffsets st ! i,
                            targetMemberOffsets st ! i))
                     [0..<memberIndex])
                map0) (\<lambda>memberMap.
         case statics of
           None \<Rightarrow> Inr (memberMap, None)
         | Some singletonCount \<Rightarrow>
             (let map1 = newTypeMap cfg (singletonCount + 2)
                           (ceiling (targetStaticOffset st) (TargetBytesPerWord cfg))
                           (word_of_nat staticIndex) SingletonKind 0 0 Type_none
              in ebind (installFields
                          (map (\<lambda>i. (buildStaticOffsets st ! i
                                        < buildFixedSizeInWords map1 * BytesPerWord cfg,
                                      staticTypes st ! i, buildStaticOffsets st ! i,
                                      targetStaticOffsets st ! i))
                               [0..<staticIndex])
                          map1) (\<lambda>staticMap. Inr (memberMap, Some staticMap)))))"

subsection \<open>From the VM's own type descriptors\<close>

text \<open>
  The arrays and variables of the loop over one descriptor. An offset that the loop
  never writes (at and after the array marker) is \<open>None\<close>.
\<close>

record DescScan =
  d_types :: "Type list"
  d_buildOffsets :: "unsigned option list"
  d_targetOffsets :: "unsigned option list"
  d_buildOffset :: unsigned
  d_targetOffset :: unsigned
  d_sawArray :: bool
  d_buildSize :: unsigned
  d_targetSize :: unsigned

definition initDescScan :: "config \<Rightarrow> DescScan" where
  "initDescScan cfg =
     \<lparr>d_types = [Type_object],
      d_buildOffsets = [Some 0],
      d_targetOffsets = [Some 0],
      d_buildOffset = BytesPerWord cfg,
      d_targetOffset = TargetBytesPerWord cfg,
      d_sawArray = False,
      d_buildSize = BytesPerWord cfg,
      d_targetSize = TargetBytesPerWord cfg\<rparr>"

text \<open>The \<open>switch\<close> on \<open>source[j - 1]\<close>: the tag stored and the build and target sizes.\<close>

definition descType :: "config \<Rightarrow> Type \<Rightarrow> error + (Type \<times> unsigned \<times> unsigned)" where
  "descType cfg t =
     (case t of
        Type_object \<Rightarrow> Inr (Type_object, BytesPerWord cfg, TargetBytesPerWord cfg)
      | Type_word \<Rightarrow> Inr (Type_intptr_t, BytesPerWord cfg, TargetBytesPerWord cfg)
      | Type_intptr_t \<Rightarrow> Inr (Type_intptr_t, BytesPerWord cfg, TargetBytesPerWord cfg)
      | Type_uintptr_t \<Rightarrow> Inr (Type_intptr_t, BytesPerWord cfg, TargetBytesPerWord cfg)
      | Type_int8_t \<Rightarrow> Inr (Type_int8_t, 1, 1)
      | Type_uint8_t \<Rightarrow> Inr (Type_int8_t, 1, 1)
      | Type_int16_t \<Rightarrow> Inr (Type_int16_t, 2, 2)
      | Type_uint16_t \<Rightarrow> Inr (Type_int16_t, 2, 2)
      | Type_int32_t \<Rightarrow> Inr (Type_int32_t, 4, 4)
      | Type_uint32_t \<Rightarrow> Inr (Type_int32_t, 4, 4)
      | Type_float \<Rightarrow> Inr (Type_int32_t, 4, 4)
      | Type_int64_t \<Rightarrow> Inr (Type_int64_t, 8, 8)
      | Type_uint64_t \<Rightarrow> Inr (Type_int64_t, 8, 8)
      | Type_double \<Rightarrow> Inr (Type_int64_t, 8, 8)
      | Type_array \<Rightarrow> Inr (Type_none, 0, 0)
      | _ \<Rightarrow> Inl UnsupportedLayout)"

definition scanDesc :: "config \<Rightarrow> Type \<Rightarrow> DescScan \<Rightarrow> error + DescScan" where
  "scanDesc cfg t st =
     ebind (descType cfg t) (\<lambda>(ty, buildSize, targetSize').
       let sawArray = (d_sawArray st \<or> t = Type_array);
           st1 = st\<lparr>d_types := d_types st @ [ty], d_buildSize := buildSize,
                     d_targetSize := targetSize', d_sawArray := sawArray\<rparr>
       in
       if \<not> sawArray then
         (if buildSize = 0 \<or> targetSize' = 0 then Inl Undefined
          else
          let bo = alignLoop (d_buildOffset st) buildSize;
              to = alignLoop (d_targetOffset st) targetSize'
          in Inr (st1\<lparr>d_buildOffsets := d_buildOffsets st @ [Some bo],
                         d_buildOffset := bo + buildSize,
                         d_targetOffsets := d_targetOffsets st @ [Some to],
                         d_targetOffset := to + targetSize'\<rparr>))
       else
         Inr (st1\<lparr>d_buildOffsets := d_buildOffsets st @ [None],
                    d_targetOffsets := d_targetOffsets st @ [None]\<rparr>))"

text \<open>
  The body of the loop of \<open>writeBootImage2\<close> over the VM's types, for one descriptor
  \<open>source\<close>, which ends at its first \<open>Type_none\<close> (a descriptor without one is read past
  its end).
\<close>

definition makeTypeMap :: "config \<Rightarrow> Type list \<Rightarrow> error + TypeMap" where
  "makeTypeMap cfg source =
     (if Type_none \<notin> set source then Inl Undefined
      else
      let elems = takeWhile (\<lambda>t. t \<noteq> Type_none) source;
          count = length elems + 1
      in
      ebind (foldE (scanDesc cfg) elems (initDescScan cfg)) (\<lambda>st.
        let fixedFieldCount' = (if d_sawArray st then count - 2 else count);
            arrayElementType' = (if d_sawArray st then d_types st ! (count - 1) else Type_none);
            buildArrayElementSize = (if d_sawArray st then d_buildSize st else 0);
            targetArrayElementSize = (if d_sawArray st then d_targetSize st else 0);
            map0 = newTypeMap cfg (ceiling (d_buildOffset st) (BytesPerWord cfg))
                     (ceiling (d_targetOffset st) (TargetBytesPerWord cfg))
                     (word_of_nat fixedFieldCount') NormalKind
                     buildArrayElementSize targetArrayElementSize arrayElementType'
        in
        if None \<in> set (take fixedFieldCount' (d_buildOffsets st))
           \<or> None \<in> set (take fixedFieldCount' (d_targetOffsets st))
        then Inl Undefined
        else
        installFields
          (map (\<lambda>j. (the (d_buildOffsets st ! j)
                        < buildFixedSizeInWords map0 * BytesPerWord cfg,
                      d_types st ! j, the (d_buildOffsets st ! j),
                      the (d_targetOffsets st ! j)))
               [0..<fixedFieldCount'])
          map0))"

section \<open>Statements about the visitor\<close>

text \<open>
  What the back-pointer patch achieves between the visitor \<open>v\<close> before it and \<open>v'\<close> after
  it, for the edge \<open>(currentObject, currentOffset)\<close> of \<open>v\<close> and the number of its target:
  the slot, the value stored there, and the bit of the slot in the heap bitmap.
\<close>

definition backPatched ::
  "config \<Rightarrow> machine \<Rightarrow> (object \<rightharpoonup> TypeMap) \<Rightarrow> unsigned \<Rightarrow> Visitor \<Rightarrow> Visitor \<Rightarrow> bool" where
  "backPatched cfg vm typeMaps number v v' =
     (case targetOffset cfg vm typeMaps (currentObject v) (currentOffset v * BytesPerWord cfg) of
        Inl e \<Rightarrow> False
      | Inr to \<Rightarrow>
          (let slot = currentNumber v - 1 + to div TargetBytesPerWord cfg;
               value = number OR push_bit (BootShift cfg)
                         (word_of_int (loadWord cfg (heap v) (unat slot)
                                       AND NOT (PointerMask cfg)))
           in loadWord cfg (heap v') (unat slot) = uint value
              \<and> bitmap v' = (if value \<noteq> 0 then insert (unat slot) (bitmap v) else bitmap v)
              \<and> (unat slot \<in> bitmap v' \<longleftrightarrow> value \<noteq> 0 \<or> unat slot \<in> bitmap v)))"

text \<open>
  The 32-bit size field of the fixie header that starts at byte address \<open>base\<close>, as the
  target machine reads it.
\<close>

definition targetBigEndian :: "config \<Rightarrow> bool" where
  "targetBigEndian cfg \<longleftrightarrow> hostBigEndian cfg \<noteq> targetOpposite cfg"

definition fixieSizeField :: "config \<Rightarrow> memory \<Rightarrow> nat \<Rightarrow> int" where
  "fixieSizeField cfg h base =
     (let bs = load_bytes h (base + TargetFixieSize) 4
      in decodeLE (if targetBigEndian cfg then rev bs else bs))"

text \<open>
  A fixie header at byte address \<open>base\<close> of the heap \<open>h\<close>, for an object of \<open>sz\<close> words: the
  age past the tenure threshold, the mask flag, the size field, and 0 in every other byte
  of the \<open>TargetFixieSizeInBytes\<close>.
\<close>

definition fixieHeaderAt :: "config \<Rightarrow> memory \<Rightarrow> nat \<Rightarrow> unsigned \<Rightarrow> bool" where
  "fixieHeaderAt cfg h base sz \<longleftrightarrow>
     h (base + TargetFixieAge) = ucast (FixieTenureThreshold cfg + 1)
     \<and> h (base + TargetFixieHasMask) = 1
     \<and> fixieSizeField cfg h base = uint sz
     \<and> (\<forall>a \<in> {base + 2 ..< base + TargetFixieSize}
               \<union> {base + TargetFixieSize + 4 ..< base + unat (TargetFixieSizeInBytes cfg)}.
          h a = 0)"

section \<open>Statements about the heap-constant pass\<close>

text \<open>
  Two listeners are apart when the target words at their locations share no byte; a byte
  address is clear of a listener when it lies outside the target word at its location;
  and the bit of the code bitmap that stands for a listener is its location, as an
  \<open>unsigned\<close>.
\<close>

definition apart :: "config \<Rightarrow> Listener \<Rightarrow> Listener \<Rightarrow> bool" where
  "apart cfg pl pl' \<longleftrightarrow>
     location pl + uint (TargetBytesPerWord cfg) \<le> location pl'
     \<or> location pl' + uint (TargetBytesPerWord cfg) \<le> location pl"

definition clearOf :: "config \<Rightarrow> Listener \<Rightarrow> nat \<Rightarrow> bool" where
  "clearOf cfg pl a \<longleftrightarrow>
     int a < location pl \<or> location pl + uint (TargetBytesPerWord cfg) \<le> int a"

definition bitOf :: "Listener \<Rightarrow> nat" where
  "bitOf pl = unat (word_of_int (location pl) :: unsigned)"

section \<open>Statements about type maps\<close>

text \<open>
  The field that the fill loop stores for an entry; whether a field of a field table is
  static; the tag the field table builder gives a field; and the invariant of the
  specification that the offset table agrees with the field list.
\<close>

definition entryField :: "bool \<times> Type \<times> unsigned \<times> unsigned \<Rightarrow> Field" where
  "entryField e = \<lparr>field_type = fst (snd e), field_offset = fst (snd (snd e)),
                   field_targetOffset = snd (snd (snd e))\<rparr>"

definition isStatic :: "config \<Rightarrow> VMField \<Rightarrow> bool" where
  "isStatic cfg f \<longleftrightarrow> fieldFlags f AND ACC_STATIC cfg \<noteq> 0"

definition tagOf :: "config \<Rightarrow> VMField \<Rightarrow> Type" where
  "tagOf cfg f = (case fieldType cfg (fieldCode f) of Inl e \<Rightarrow> Type_none | Inr r \<Rightarrow> fst r)"

definition offsetsConsistent :: "TypeMap \<Rightarrow> bool" where
  "offsetsConsistent m \<longleftrightarrow>
     (\<forall>f \<in> set (fixedFields m).
        unat (field_offset f) < length (targetFixedOffsets m)
        \<and> targetFixedOffsets m ! unat (field_offset f) = field_targetOffset f)"

text \<open>
  For the loop over a type descriptor: the offsets that have been written, and the
  invariant of the loop after \<open>k\<close> entries (the offsets written are pairwise distinct and
  lie below the running build offset, which has not wrapped).
\<close>

definition somes :: "'a option list \<Rightarrow> 'a list" where
  "somes xs = map the (filter (\<lambda>x. x \<noteq> None) xs)"

definition descInv :: "DescScan \<Rightarrow> nat \<Rightarrow> bool" where
  "descInv st k \<longleftrightarrow>
     distinct (somes (d_buildOffsets st))
     \<and> (\<forall>x \<in> set (somes (d_buildOffsets st)). unat x < unat (d_buildOffset st))
     \<and> unat (d_buildOffset st) \<le> 8 + 16 * k"

section \<open>A concrete configuration\<close>

text \<open>
  A 64-bit little-endian build machine writing for a 32-bit target of the same byte
  order, a VM with one user class (object 10, with instances 20 and 21), a system class
  loader (object 40, of class 3) and a visitor standing on the second word of object 20.
\<close>

definition singletonMaskSize_ex :: "unsigned \<Rightarrow> unsigned \<Rightarrow> unsigned" where
  "singletonMaskSize_ex count bitsPerWord =
     (if count \<noteq> 0 then ceiling (count + 2) bitsPerWord else 0)"

definition fieldSize_ex :: "FieldCode \<Rightarrow> unsigned" where
  "fieldSize_ex code =
     (case code of
        ObjectField \<Rightarrow> 8
      | ByteField \<Rightarrow> 1
      | BooleanField \<Rightarrow> 1
      | CharField \<Rightarrow> 2
      | ShortField \<Rightarrow> 2
      | FloatField \<Rightarrow> 4
      | IntField \<Rightarrow> 4
      | LongField \<Rightarrow> 8
      | DoubleField \<Rightarrow> 8
      | OtherField \<Rightarrow> 0)"

definition cfg_ex :: config where
  "cfg_ex =
     \<lparr>BytesPerWord = 8, TargetBytesPerWord = 4, TargetBitsPerWord = 32,
      hostBigEndian = False, targetOpposite = False,
      PointerMask = 18446744073709551608, FixedMark = 3, BootShift = 29,
      BootHeapOffset = 1073741824, BootFlatConstant = 536870912,
      FixieTenureThreshold = 3, ClassStaticTable = 96,
      singletonMaskSize = singletonMaskSize_ex, poolMaskSize = ceiling,
      fieldSize = fieldSize_ex, ACC_STATIC = 8,
      CONSTANT_Class = 7, CONSTANT_String = 8, CONSTANT_Integer = 3, CONSTANT_Float = 4,
      CONSTANT_NameAndType = 12, CONSTANT_Fieldref = 9, CONSTANT_Methodref = 10,
      CONSTANT_InterfaceMethodref = 11, CONSTANT_Long = 5, CONSTANT_Double = 6,
      CONSTANT_Utf8 = 1\<rparr>"

definition vm_ex :: machine where
  "vm_ex =
     \<lparr>objectClass = (\<lambda>p. if p = 20 \<or> p = 21 then 10 else if p = 40 then 3 else 1),
      instanceOf = (\<lambda>c p. c = 3 \<and> p = 40),
      ClassType = 1, SingletonType = 2, SystemClassLoaderType = 3,
      objectBody = (\<lambda>p a. 0)\<rparr>"

definition map_ex :: TypeMap where
  "map_ex =
     \<lparr>buildFixedSizeInWords = 2, targetFixedSizeInWords = 3, fixedFieldCount = 2,
      buildArrayElementSizeInBytes = 0, targetArrayElementSizeInBytes = 0,
      arrayElementType = Type_none, kind = NormalKind,
      targetFixedOffsets = [0, 0, 0, 0, 0, 0, 0, 0, 4, 0, 0, 0, 0, 0, 0, 0],
      fixedFields = [\<lparr>field_type = Type_object, field_offset = 0, field_targetOffset = 0\<rparr>,
                     \<lparr>field_type = Type_object, field_offset = 8, field_targetOffset = 4\<rparr>]\<rparr>"

definition typeMaps_ex :: "object \<rightharpoonup> TypeMap" where
  "typeMaps_ex = [10 \<mapsto> map_ex, 3 \<mapsto> map_ex]"

definition visitor_ex :: Visitor where
  "visitor_ex =
     \<lparr>currentObject = 20, currentNumber = 1, currentOffset = 1,
      heap = (\<lambda>a. 0), bitmap = {}, position = 3, capacity = 100\<rparr>"

text \<open>
  A class file whose constant pool has the single entry \<open>Utf8 "A"\<close>, and a field table
  entry for an instance field of type \<open>char\<close> at build offset 8.
\<close>

definition class_ex :: stream where
  "class_ex = [0xCA, 0xFE, 0xBA, 0xBE, 0, 0, 0, 0x31, 0, 2, 1, 0, 1, 0x41]"

definition field_ex :: VMField where
  "field_ex = \<lparr>fieldCode = CharField, fieldFlags = 0, fieldOffset = 8\<rparr>"

text \<open>
  A static field of type \<open>int\<close> at build offset 16, and the descriptor of a VM type with
  one \<open>int32_t\<close> field.
\<close>

definition staticField_ex :: VMField where
  "staticField_ex = \<lparr>fieldCode = IntField, fieldFlags = 8, fieldOffset = 16\<rparr>"

definition descriptor_ex :: "Type list" where
  "descriptor_ex = [Type_int32_t, Type_none]"

text \<open>
  The same VM with a 7 in the second word of every object, and a type map whose second
  field is a word-sized integer, so that the transcoder has a value to carry over.
\<close>

definition vm_ex2 :: machine where
  "vm_ex2 = vm_ex\<lparr>objectBody := (\<lambda>p a. if a = 8 then 7 else 0)\<rparr>"

definition map_ex2 :: TypeMap where
  "map_ex2 =
     map_ex\<lparr>fixedFields :=
              [\<lparr>field_type = Type_object, field_offset = 0, field_targetOffset = 0\<rparr>,
               \<lparr>field_type = Type_intptr_t, field_offset = 8, field_targetOffset = 4\<rparr>]\<rparr>"

definition typeMaps_ex2 :: "object \<rightharpoonup> TypeMap" where
  "typeMaps_ex2 = [10 \<mapsto> map_ex2, 3 \<mapsto> map_ex2]"

section \<open>Basic facts\<close>

lemma ebind_Inr [simp]: "ebind (Inr v) f = f v"
  by (simp add: ebind_def)

lemma ebind_Inl [simp]: "ebind (Inl e) f = Inl e"
  by (simp add: ebind_def)

lemma ebind_eq_Inr: "ebind x f = Inr y \<longleftrightarrow> (\<exists>v. x = Inr v \<and> f v = Inr y)"
  by (cases x) simp_all

lemma length_encodeLE [simp]: "length (encodeLE n v) = n"
  by (simp add: encodeLE_def)

lemma length_encode [simp]: "length (encode cfg n v) = n"
  by (simp add: encode_def)

text \<open>Writing an integer as \<open>n\<close> bytes and reading it back keeps its low \<open>8 * n\<close> bits.\<close>

lemma decodeLE_encodeLE: "decodeLE (encodeLE n v) = take_bit (8 * n) v"
proof (rule bit_eqI)
  fix k
  have "(256 :: int) = 2 ^ LENGTH(8)" by simp
  then have "bit (decodeLE (encodeLE n v)) k \<longleftrightarrow>
        k div 8 < n \<and> bit (encodeLE n v ! (k div 8)) (k mod 8)"
    unfolding decodeLE_def
    using bit_horner_sum_uint_exp_iff [where 'a = 8, of "encodeLE n v" k] by simp
  also have "\<dots> \<longleftrightarrow> k div 8 < n \<and> bit v k"
    by (auto simp: encodeLE_def bit_word_of_int_iff bit_drop_bit_eq)
  also have "\<dots> \<longleftrightarrow> bit (take_bit (8 * n) v) k"
    by (auto simp: bit_take_bit_iff less_mult_imp_div_less div_less_iff_less_mult)
  finally show "bit (decodeLE (encodeLE n v)) k = bit (take_bit (8 * n) v) k" .
qed

lemma decode_encode: "decode cfg (encode cfg n v) = take_bit (8 * n) v"
  by (simp add: decode_def encode_def decodeLE_encodeLE)

lemma load_store_bytes: "load_bytes (store_bytes m a bs) a (length bs) = bs"
  by (rule nth_equalityI) (simp_all add: load_bytes_def store_bytes_def)

lemma loadAt_storeAt: "loadAt cfg n (storeAt cfg n m a v) a = take_bit (8 * n) v"
  using load_store_bytes [of m a "encode cfg n v"]
  by (simp add: loadAt_def storeAt_def decode_encode)

lemma loadWord_storeWord:
  "loadWord cfg (storeWord cfg m i v) i = take_bit (8 * unat (TargetBytesPerWord cfg)) v"
  by (simp add: loadWord_def storeWord_def loadAt_storeAt)

lemma wf_cfg_ex: "wf_config cfg_ex"
  by (simp add: wf_config_def cfg_ex_def)

lemma visit_position: "visit cfg vm tm n v = Inr v' \<Longrightarrow> position v' = position v"
  by (auto simp: visit_def ebind_eq_Inr Let_def split: if_splits)

text \<open>The concrete configuration, evaluated.\<close>

lemma cfg_ex_simps [simp]:
  "BytesPerWord cfg_ex = 8" "TargetBytesPerWord cfg_ex = 4" "TargetBitsPerWord cfg_ex = 32"
  "hostBigEndian cfg_ex = False" "targetOpposite cfg_ex = False"
  "PointerMask cfg_ex = 18446744073709551608" "FixedMark cfg_ex = 3" "BootShift cfg_ex = 29"
  "BootHeapOffset cfg_ex = 1073741824" "BootFlatConstant cfg_ex = 536870912"
  "FixieTenureThreshold cfg_ex = 3" "ClassStaticTable cfg_ex = 96"
  "singletonMaskSize cfg_ex = singletonMaskSize_ex" "poolMaskSize cfg_ex = ceiling"
  "fieldSize cfg_ex = fieldSize_ex" "ACC_STATIC cfg_ex = 8"
  by (simp_all add: cfg_ex_def)

lemma vm_ex_simps [simp]:
  "objectClass vm_ex = (\<lambda>p. if p = 20 \<or> p = 21 then 10 else if p = 40 then 3 else 1)"
  "instanceOf vm_ex = (\<lambda>c p. c = 3 \<and> p = 40)"
  "ClassType vm_ex = 1" "SingletonType vm_ex = 2" "SystemClassLoaderType vm_ex = 3"
  "objectBody vm_ex = (\<lambda>p a. 0)"
  by (simp_all add: vm_ex_def)

lemma visitor_ex_simps [simp]:
  "currentObject visitor_ex = 20" "currentNumber visitor_ex = 1" "currentOffset visitor_ex = 1"
  "heap visitor_ex = (\<lambda>a. 0)" "bitmap visitor_ex = {}" "position visitor_ex = 3"
  "capacity visitor_ex = 100"
  by (simp_all add: visitor_ex_def)

lemma typeMap_ex [simp]:
  "typeMap vm_ex typeMaps_ex 20 = Inr map_ex"
  "typeMap vm_ex typeMaps_ex 21 = Inr map_ex"
  "typeMap vm_ex typeMaps_ex 40 = Inr map_ex"
  by (simp_all add: typeMap_def typeMaps_ex_def)

lemma targetSize_ex21: "targetSize cfg_ex vm_ex typeMaps_ex 21 = Inr 3"
  by (simp add: targetSize_def) (simp add: map_ex_def)

lemma targetSize_ex40: "targetSize cfg_ex vm_ex typeMaps_ex 40 = Inr 3"
  by (simp add: targetSize_def) (simp add: map_ex_def)

lemma isFixed_ex21: "\<not> isFixed cfg_ex vm_ex visitor_ex 21"
  by (simp add: isFixed_def)

lemma isFixed_ex40: "isFixed cfg_ex vm_ex visitor_ex 40"
  by (simp add: isFixed_def)

lemma targetOffset_ex20: "targetOffset cfg_ex vm_ex typeMaps_ex 20 8 = Inr 4"
  by (simp add: targetOffset_def) (simp add: map_ex_def)

lemma zero_word: "loadWord cfg_ex (\<lambda>a. 0) i = 0"
  by (simp add: loadWord_def loadAt_def load_bytes_def decode_def decodeLE_def horner_sum_eq_sum)

lemma fixie_ex: "TargetFixieSizeInWords cfg_ex = 4" "TargetFixieSizeInBytes cfg_ex = 16"
  by (simp_all add: TargetFixieSizeInWords_def TargetFixieSizeInBytes_def ceiling_def)

lemma visit_ex:
  "currentObject v = 20 \<Longrightarrow> currentOffset v = 1 \<Longrightarrow>
   \<exists>v'. visit cfg_ex vm_ex typeMaps_ex n v = Inr v'"
  by (simp add: visit_def targetOffset_ex20 Let_def)

lemma copyObject_ex:
  "\<exists>h'. copyObject cfg_ex vm_ex typeMaps_ex 21 h d = Inr h'"
  "\<exists>h'. copyObject cfg_ex vm_ex typeMaps_ex 40 h d = Inr h'"
  by (simp_all add: copyObject_def Let_def) (simp_all add: map_ex_def copy_def)

lemma visitNew_ex21:
  "\<exists>v'. visitNew cfg_ex vm_ex typeMaps_ex 21 visitor_ex = Inr (4, v') \<and> position v' = 6"
proof -
  obtain h' where h': "copyObject cfg_ex vm_ex typeMaps_ex 21 (\<lambda>a. 0) 12 = Inr h'"
    using copyObject_ex(1) by blast
  have plain: "visitNew_plain cfg_ex vm_ex typeMaps_ex 21 3 visitor_ex
                 = Inr (4, visitor_ex\<lparr>heap := h', position := 6\<rparr>)"
    by (simp add: visitNew_plain_def h')
  obtain v' where
    v': "visit cfg_ex vm_ex typeMaps_ex 4 (visitor_ex\<lparr>heap := h', position := 6\<rparr>) = Inr v'"
    using visit_ex [of "visitor_ex\<lparr>heap := h', position := 6\<rparr>" 4] by auto
  from visit_position [OF v'] have "position v' = 6" by simp
  then show ?thesis
    by (simp add: visitNew_def targetSize_ex21 isFixed_ex21 plain v')
qed

lemma visitNew_ex40: "\<exists>v'. visitNew cfg_ex vm_ex typeMaps_ex 40 visitor_ex = Inr (8, v')"
proof -
  obtain h5 where h5: "copyObject cfg_ex vm_ex typeMaps_ex 40
       (storeAt cfg_ex 4
         (store_bytes (store_bytes (memset (\<lambda>a. 0) 12 0 16) 12 [4]) 13 [1]) 16
           (TARGET_V cfg_ex 4 3)) 28 = Inr h5"
    using copyObject_ex(2) by blast
  obtain v1 where fixed: "visitNew_fixed cfg_ex vm_ex typeMaps_ex 40 3 visitor_ex = Inr (8, v1)"
    and c: "currentObject v1 = 20" "currentOffset v1 = 1"
    by (simp add: visitNew_fixed_def fixie_ex ceiling_def Let_def h5
                  TargetFixieAge_def TargetFixieHasMask_def TargetFixieSize_def)
  obtain v' where v': "visit cfg_ex vm_ex typeMaps_ex 8 v1 = Inr v'"
    using visit_ex [OF c] by auto
  show ?thesis
    by (simp add: visitNew_def targetSize_ex40 isFixed_ex40 fixed v')
qed

lemma visitOld_ex:
  "\<exists>v'. visitOld cfg_ex vm_ex typeMaps_ex 21 7 visitor_ex = Inr v' \<and> bitmap v' = {1}"
  by (simp add: visitOld_def visit_def targetOffset_ex20 Let_def markBit_def zero_word)


lemma fixie_words:
  "wf_config cfg \<Longrightarrow> TargetFixieSizeInWords cfg = 4 \<or> TargetFixieSizeInWords cfg = 3"
  by (auto simp: wf_config_def TargetFixieSizeInWords_def TargetFixieSizeInBytes_def ceiling_def)

lemma fixie_words_nonzero: "wf_config cfg \<Longrightarrow> TargetFixieSizeInWords cfg \<noteq> 0"
  using fixie_words [of cfg] by auto

lemma visitNew_fixed_result:
  "visitNew_fixed cfg vm typeMaps p sz v = Inr (number, v1) \<Longrightarrow>
     number = position v + TargetFixieSizeInWords cfg + 1
     \<and> position v1 = position v + (TargetFixieSizeInWords cfg + sz
                                   + ceiling sz (TargetBytesPerWord cfg))
     \<and> currentObject v1 = currentObject v \<and> currentNumber v1 = currentNumber v
     \<and> currentOffset v1 = currentOffset v \<and> bitmap v1 = bitmap v \<and> capacity v1 = capacity v"
  by (auto simp: visitNew_fixed_def Let_def ebind_eq_Inr split: if_splits)

lemma visitNew_plain_result:
  "visitNew_plain cfg vm typeMaps p sz v = Inr (number, v1) \<Longrightarrow>
     number = position v + 1 \<and> position v1 = position v + sz
     \<and> currentObject v1 = currentObject v \<and> currentNumber v1 = currentNumber v
     \<and> currentOffset v1 = currentOffset v \<and> bitmap v1 = bitmap v \<and> capacity v1 = capacity v"
  by (auto simp: visitNew_plain_def Let_def ebind_eq_Inr split: if_splits)

lemma visitNew_split:
  assumes "p \<noteq> 0" and "visitNew cfg vm typeMaps p v = Inr (number, v')"
  obtains sz v1 where "targetSize cfg vm typeMaps p = Inr sz"
    and "(if isFixed cfg vm v p then visitNew_fixed cfg vm typeMaps p sz v
          else visitNew_plain cfg vm typeMaps p sz v) = Inr (number, v1)"
    and "visit cfg vm typeMaps number v1 = Inr v'"
  using assms by (auto simp: visitNew_def ebind_eq_Inr)

lemma take_bit_target_word:
  assumes "wf_config cfg"
  shows "take_bit (8 * unat (TargetBytesPerWord cfg)) (uint (w :: unsigned)) = uint w"
proof -
  have "uint w < 2 ^ 32" using uint_bounded [of w] by simp
  moreover have "(2 :: int) ^ 32 \<le> 2 ^ (8 * unat (TargetBytesPerWord cfg))"
    using assms by (auto simp: wf_config_def)
  ultimately have "uint w < 2 ^ (8 * unat (TargetBytesPerWord cfg))" by linarith
  then show ?thesis by (simp add: take_bit_int_eq_self)
qed

lemma visit_backPatched:
  assumes "wf_config cfg" and "currentObject v \<noteq> 0"
    and "visit cfg vm typeMaps number v = Inr v'"
  shows "backPatched cfg vm typeMaps number v v'"
  using assms(2,3)
  by (auto simp: visit_def backPatched_def ebind_eq_Inr Let_def markBit_def
                 loadWord_storeWord take_bit_target_word [OF assms(1)])

lemma resolveListener_Inr:
  "resolveListener cfg target pl (c0, m0) = Inr (c1, m1) \<Longrightarrow>
     location pl \<ge> 0
     \<and> c1 = storeAt cfg (unat (TargetBytesPerWord cfg)) c0 (nat (location pl))
             (uint (target OR BootHeapOffset cfg OR (if flat pl then BootFlatConstant cfg else 0)))
     \<and> m1 = insert (unat (word_of_int (location pl) :: unsigned)) m0"
  by (auto simp: resolveListener_def Let_def markBit_def or.assoc split: if_splits)

lemma resolveListener_Inl: "resolveListener cfg target pl cm = Inl e \<Longrightarrow> e = InvariantViolation"
  by (auto simp: resolveListener_def Let_def split: if_splits)

lemma listeners_marked:
  "foldE (resolveListener cfg target) ls (c0, m0) = Inr (c1, m1) \<Longrightarrow>
     m0 \<subseteq> m1 \<and> (\<forall>pl \<in> set ls. unat (word_of_int (location pl) :: unsigned) \<in> m1)"
proof (induction ls arbitrary: c0 m0)
  case Nil
  then show ?case by simp
next
  case (Cons pl ls)
  from Cons.prems obtain c m where
    step: "resolveListener cfg target pl (c0, m0) = Inr (c, m)"
    and rest: "foldE (resolveListener cfg target) ls (c, m) = Inr (c1, m1)"
    by (auto simp: ebind_eq_Inr)
  from resolveListener_Inr [OF step] Cons.IH [OF rest] show ?case by auto
qed

lemma listeners_Inl:
  "foldE (resolveListener cfg target) ls cm = Inl e \<Longrightarrow> e = InvariantViolation"
proof (induction ls arbitrary: cm)
  case Nil
  then show ?case by simp
next
  case (Cons pl ls)
  then show ?case
    by (cases "resolveListener cfg target pl cm") (auto dest: resolveListener_Inl)
qed

lemma constants_marked:
  "foldE (resolveConstant cfg heapTable) cs (c0, m0) = Inr (c1, m1) \<Longrightarrow>
     m0 \<subseteq> m1 \<and> (\<forall>c \<in> set cs. heapTable (fst c) > 0
           \<and> (\<forall>pl \<in> set (snd c). unat (word_of_int (location pl) :: unsigned) \<in> m1))"
proof (induction cs arbitrary: c0 m0)
  case Nil
  then show ?case by simp
next
  case (Cons c cs)
  from Cons.prems obtain cm where
    step: "resolveConstant cfg heapTable c (c0, m0) = Inr cm"
    and rest: "foldE (resolveConstant cfg heapTable) cs cm = Inr (c1, m1)"
    by (auto simp: ebind_eq_Inr)
  obtain c' m' where cm: "cm = (c', m')" by (cases cm)
  from step cm have pos: "heapTable (fst c) > 0"
    and ls: "foldE (resolveListener cfg (heapTable (fst c))) (snd c) (c0, m0) = Inr (c', m')"
    by (auto simp: resolveConstant_def Let_def split: if_splits)
  from listeners_marked [OF ls] Cons.IH [OF rest [unfolded cm]] pos
  show ?case by auto
qed

lemma constants_Inl:
  "foldE (resolveConstant cfg heapTable) cs cm = Inl e \<Longrightarrow> e = InvariantViolation"
proof (induction cs arbitrary: cm)
  case Nil
  then show ?case by simp
next
  case (Cons c cs)
  then show ?case
    by (cases "resolveConstant cfg heapTable c cm")
       (auto simp: resolveConstant_def Let_def split: if_splits dest: listeners_Inl)
qed

lemma updateConstants_fold:
  "updateConstants cfg constants code codeMap heapTable
     = foldE (resolveConstant cfg heapTable) constants (code, codeMap)"
  by (simp add: updateConstants_def)

text \<open>What a write leaves alone, and what the fixed branch of \<open>visitNew\<close> writes.\<close>

lemma store_bytes_below: "x < a \<Longrightarrow> store_bytes m a bs x = m x"
  by (simp add: store_bytes_def)

lemma memset_below: "x < a \<Longrightarrow> memset m a v n x = m x"
  by (simp add: memset_def)

lemma storeAt_below: "x < a \<Longrightarrow> storeAt cfg n m a v x = m x"
  by (simp add: storeAt_def store_bytes_below)

lemma or32_below: "x < a \<Longrightarrow> or32 cfg m a k bits x = m x"
  by (simp add: or32_def storeAt_below)

lemma orWord_below: "x < a \<Longrightarrow> orWord cfg m a k bits x = m x"
  by (simp add: orWord_def storeAt_below)

lemma copy_below: "copy cfg src s dst d ty = Inr h \<Longrightarrow> x < d \<Longrightarrow> h x = dst x"
  by (cases ty) (auto simp: copy_def store_bytes_below storeAt_below memset_below)

lemma foldE_below:
  assumes "\<And>e h h'. f e h = Inr h' \<Longrightarrow> h' x = h x"
    and "foldE f es h = Inr h'"
  shows "h' x = h (x :: nat)"
  using assms(2)
proof (induction es arbitrary: h)
  case Nil
  then show ?case by simp
next
  case (Cons e es)
  from Cons.prems obtain h1 where s: "f e h = Inr h1" and r: "foldE f es h1 = Inr h'"
    by (auto simp: ebind_eq_Inr)
  have "h' x = h1 x" using Cons.IH [OF r] .
  moreover have "h1 x = h x" using assms(1) [OF s] .
  ultimately show ?case by simp
qed

lemma fold_below:
  assumes "\<And>e h. e \<in> set es \<Longrightarrow> f e h x = h x"
  shows "fold f es h x = h (x :: nat)"
  using assms by (induction es arbitrary: h) simp_all

lemma copyObject_below:
  assumes "copyObject cfg vm typeMaps p h d = Inr h'" and "x < d"
  shows "h' x = h x"
proof -
  from assms(1) obtain m where m: "typeMap vm typeMaps p = Inr m"
    by (auto simp: copyObject_def ebind_eq_Inr)
  let ?fields = "take (unat (fixedFieldCount m)) (fixedFields m)"
  let ?f = "\<lambda>field h. copy cfg (objectBody vm p) (unat (field_offset field))
                                  h (d + unat (field_targetOffset field)) (field_type field)"
  from assms(1) m obtain h1 where
    h1: "foldE ?f ?fields h = Inr h1"
    and rest: "(if targetArrayElementSizeInBytes m \<noteq> 0 then
           (let fixedSize = buildFixedSizeInWords m * BytesPerWord cfg;
                count = (word_of_int (cast_uintptr cfg (objectBody vm p) (unat (fixedSize - BytesPerWord cfg)))
                          :: unsigned)
            in foldE (\<lambda>i h. copy cfg (objectBody vm p)
                               (unat fixedSize + unat (i * buildArrayElementSizeInBytes m))
                               h
                               (d + unat (targetFixedSizeInWords m * TargetBytesPerWord cfg)
                                + unat (i * targetArrayElementSizeInBytes m))
                               (arrayElementType m))
                     (map word_of_nat [0..<unat count]) h1)
         else
           (case kind m of
              NormalKind \<Rightarrow> Inr h1
            | SingletonKind \<Rightarrow>
                (let mask' = d + unat (targetFixedSizeInWords m * TargetBytesPerWord cfg);
                     h2 = memset h1 mask' 0
                            (unat (singletonMaskSize cfg (targetFixedSizeInWords m - 2)
                                     (TargetBitsPerWord cfg)
                                   * TargetBytesPerWord cfg))
                 in Inr (fold (\<lambda>field h.
                                 if field_type field = Type_object then
                                   (let offset = field_targetOffset field
                                                 div TargetBytesPerWord cfg
                                    in or32 cfg h mask' (unat (offset div 32))
                                         (push_bit (unat (offset mod 32)) 1))
                                 else h)
                              ?fields h2))
            | PoolKind \<Rightarrow>
                (let poolMaskSize' = poolMaskSize cfg (targetFixedSizeInWords m - 2)
                                       (TargetBitsPerWord cfg);
                     poolMask = d + unat (targetFixedSizeInWords m * TargetBytesPerWord cfg);
                     h2 = memset h1 poolMask 0 (unat (poolMaskSize' * TargetBytesPerWord cfg));
                     objectMask = d + unat ((targetFixedSizeInWords m + poolMaskSize')
                                              * TargetBytesPerWord cfg);
                     h3 = memset h2 objectMask 0
                            (unat (singletonMaskSize cfg
                                     (targetFixedSizeInWords m - 2 + poolMaskSize')
                                     (TargetBitsPerWord cfg)
                                   * TargetBytesPerWord cfg))
                 in Inr (fold (\<lambda>(i, field) h.
                                 if field_type field = Type_object then
                                   or32 cfg h objectMask (i div 32) (push_bit (i mod 32) 1)
                                 else if field_type field = Type_float
                                         \<or> field_type field = Type_double then
                                   orWord cfg h poolMask (i div unat (TargetBitsPerWord cfg))
                                     (push_bit (i mod unat (TargetBitsPerWord cfg)) 1)
                                 else h)
                              (zip [0..<length ?fields] ?fields) h3)))) = Inr h'"
    by (auto simp: copyObject_def ebind_eq_Inr Let_def split: if_splits)
  have a: "h1 x = h x"
  proof (rule foldE_below [OF _ h1])
    fix e h h'
    assume "copy cfg (objectBody vm p) (unat (field_offset e)) h
              (d + unat (field_targetOffset e)) (field_type e) = Inr h'"
    from copy_below [OF this] assms(2) show "h' x = h x" by simp
  qed
  have b: "h' x = h1 x"
  proof (cases "targetArrayElementSizeInBytes m \<noteq> 0")
    case True
    with rest obtain es where
      r: "foldE (\<lambda>i h. copy cfg (objectBody vm p)
                     (unat (buildFixedSizeInWords m * BytesPerWord cfg)
                      + unat (i * buildArrayElementSizeInBytes m))
                     h
                     (d + unat (targetFixedSizeInWords m * TargetBytesPerWord cfg)
                      + unat (i * targetArrayElementSizeInBytes m))
                     (arrayElementType m)) es h1 = Inr h'"
      by (auto simp: Let_def)
    show ?thesis
    proof (rule foldE_below [OF _ r])
      fix i h h'
      assume "copy cfg (objectBody vm p)
                (unat (buildFixedSizeInWords m * BytesPerWord cfg)
                 + unat (i * buildArrayElementSizeInBytes m))
                h
                (d + unat (targetFixedSizeInWords m * TargetBytesPerWord cfg)
                 + unat (i * targetArrayElementSizeInBytes m))
                (arrayElementType m) = Inr h'"
      from copy_below [OF this] assms(2) show "h' x = h x" by simp
    qed
  next
    case False
    with rest show ?thesis
      using assms(2)
      by (cases "kind m")
         (auto simp: Let_def fold_below or32_below orWord_below memset_below split: prod.splits)
  qed
  from a b show ?thesis by simp
qed

lemma load_bytes_cong:
  "(\<And>k. k < n \<Longrightarrow> m1 (a + k) = m2 (a + k)) \<Longrightarrow> load_bytes m1 a n = load_bytes m2 a n"
  by (simp add: load_bytes_def)

lemma loadAt_cong:
  "(\<And>k. k < n \<Longrightarrow> m1 (a + k) = m2 (a + k)) \<Longrightarrow> loadAt cfg n m1 a = loadAt cfg n m2 a"
  unfolding loadAt_def by (rule arg_cong [where f = "decode cfg"]) (rule load_bytes_cong)

lemma decodeLE_zero: "decodeLE (replicate n 0) = 0"
  by (induction n) (simp_all add: decodeLE_def)

lemma loadAt_zero:
  assumes "\<And>k. k < n \<Longrightarrow> m (a + k) = 0"
  shows "loadAt cfg n m a = 0"
proof -
  have "load_bytes m a n = replicate n 0"
    using assms by (auto simp: load_bytes_def intro: nth_equalityI)
  then show ?thesis by (simp add: loadAt_def decode_def decodeLE_zero)
qed

lemma ceiling_mult_no_wrap: "unat (ceiling n d * d) = unat (ceiling n d) * unat d"
proof -
  have "unat (ceiling n d) = unat (n + d - 1) div unat d"
    by (simp add: ceiling_def unat_div)
  then have "unat (ceiling n d) * unat d \<le> unat (n + d - 1)"
    by simp
  also have "\<dots> < 2 ^ LENGTH(32)" by (rule unsigned_less)
  finally show ?thesis by (simp add: unat_mult_lem [THEN iffD1])
qed

lemma memset_empty: "memset m a v 0 = m"
  by (rule ext) (auto simp: memset_def)

lemma ceiling_zero: "wf_config cfg \<Longrightarrow> ceiling 0 (TargetBytesPerWord cfg) = 0"
  by (auto simp: wf_config_def ceiling_def)

lemma tbpw_cases: "wf_config cfg \<Longrightarrow> unat (TargetBytesPerWord cfg) = 4 \<or> unat (TargetBytesPerWord cfg) = 8"
  by (auto simp: wf_config_def)

lemma fixie_header_fits:
  "wf_config cfg \<Longrightarrow>
     16 \<le> unat (TargetFixieSizeInWords cfg) * unat (TargetBytesPerWord cfg)"
  by (auto simp: wf_config_def TargetFixieSizeInWords_def TargetFixieSizeInBytes_def ceiling_def)

lemma fixie_layout:
  assumes wf: "wf_config cfg"
    and r: "visitNew_fixed cfg vm typeMaps p sz v = Inr (number, v1)"
  defines "w \<equiv> unat (TargetBytesPerWord cfg)"
    and "base \<equiv> unat (position v) * unat (TargetBytesPerWord cfg)"
    and "body \<equiv> unat (position v) + unat (TargetFixieSizeInWords cfg)"
  shows "heap v1 (base + TargetFixieAge) = ucast (FixieTenureThreshold cfg + 1)
       \<and> heap v1 (base + TargetFixieHasMask) = 1
       \<and> load_bytes (heap v1) (base + TargetFixieSize) 4
           = encode cfg 4 (TARGET_V cfg 4 (uint sz))
       \<and> (\<exists>h4 h5. copyObject cfg vm typeMaps p h4 (body * w) = Inr h5
              \<and> loadWord cfg (heap v1) body
                  = take_bit (8 * w) (loadWord cfg h5 body OR FixedMark cfg))
       \<and> (\<forall>j < unat (ceiling sz (TargetBytesPerWord cfg)).
              loadWord cfg (heap v1) (body + unat sz + j) = 0)
       \<and> number = position v + TargetFixieSizeInWords cfg + 1"
proof -
  define h1 where "h1 = memset (heap v) base 0 (unat (TargetFixieSizeInBytes cfg))"
  define h2 where "h2 = store_bytes h1 (base + TargetFixieAge) [ucast (FixieTenureThreshold cfg + 1)]"
  define h3 where "h3 = store_bytes h2 (base + TargetFixieHasMask) [1]"
  define h4 where "h4 = storeAt cfg 4 h3 (base + TargetFixieSize) (TARGET_V cfg 4 (uint sz))"
  define ms where "ms = ceiling sz (TargetBytesPerWord cfg)"
  from r obtain h5 where
    h5: "copyObject cfg vm typeMaps p h4 (body * w) = Inr h5"
    and hv: "heap v1 = memset (storeWord cfg h5 body (loadWord cfg h5 body OR FixedMark cfg))
                         ((body + unat sz) * w) 0 (unat (ms * TargetBytesPerWord cfg))"
    and num: "number = word_of_nat body + 1"
    unfolding visitNew_fixed_def Let_def h1_def h2_def h3_def h4_def ms_def base_def body_def w_def
    by (auto simp: ebind_eq_Inr split: if_splits)
  define h6 where "h6 = storeWord cfg h5 body (loadWord cfg h5 body OR FixedMark cfg)"
  have w: "w = 4 \<or> w = 8" using tbpw_cases [OF wf] by (simp add: w_def)
  have fits: "base + 16 \<le> body * w"
    using fixie_header_fits [OF wf] by (simp add: base_def body_def w_def algebra_simps)
  have below: "heap v1 x = h4 x" if "x < body * w" for x
  proof -
    have "heap v1 x = h6 x"
      using that by (simp add: hv h6_def memset_below algebra_simps)
    also have "\<dots> = h5 x"
      using that by (simp add: h6_def storeWord_def storeAt_below w_def)
    also have "\<dots> = h4 x"
      using copyObject_below [OF h5 that] .
    finally show ?thesis .
  qed
  have age: "heap v1 (base + TargetFixieAge) = ucast (FixieTenureThreshold cfg + 1)"
    using fits below [of "base + TargetFixieAge"]
    by (simp add: TargetFixieAge_def TargetFixieHasMask_def TargetFixieSize_def
                  h4_def h3_def h2_def storeAt_def store_bytes_def)
  have hasMask: "heap v1 (base + TargetFixieHasMask) = 1"
    using fits below [of "base + TargetFixieHasMask"]
    by (simp add: TargetFixieAge_def TargetFixieHasMask_def TargetFixieSize_def
                  h4_def h3_def h2_def storeAt_def store_bytes_def)
  have "load_bytes (heap v1) (base + TargetFixieSize) 4 = load_bytes h4 (base + TargetFixieSize) 4"
    using fits by (intro load_bytes_cong below) (simp add: TargetFixieSize_def)
  also have "\<dots> = encode cfg 4 (TARGET_V cfg 4 (uint sz))"
    using load_store_bytes [of h3 "base + TargetFixieSize" "encode cfg 4 (TARGET_V cfg 4 (uint sz))"]
    by (simp add: h4_def storeAt_def)
  finally have size_field: "load_bytes (heap v1) (base + TargetFixieSize) 4
           = encode cfg 4 (TARGET_V cfg 4 (uint sz))" .
  have msw: "unat (ms * TargetBytesPerWord cfg) = unat ms * w"
    by (simp add: ms_def w_def ceiling_mult_no_wrap)
  have "loadWord cfg (heap v1) body = loadWord cfg h6 body"
  proof (cases "sz = 0")
    case True
    then have "ms = 0" using ceiling_zero [OF wf] by (simp add: ms_def)
    then show ?thesis by (simp add: hv h6_def memset_empty)
  next
    case False
    then have "0 < unat sz" by (simp add: unat_gt_0)
    then have "body * w + w \<le> (body + unat sz) * w"
      by (simp add: algebra_simps)
    then show ?thesis
      unfolding loadWord_def
      by (intro loadAt_cong) (simp add: hv h6_def [symmetric] memset_below w_def)
  qed
  also have "\<dots> = take_bit (8 * w) (loadWord cfg h5 body OR FixedMark cfg)"
    by (simp add: h6_def loadWord_storeWord w_def)
  finally have mark: "loadWord cfg (heap v1) body
                  = take_bit (8 * w) (loadWord cfg h5 body OR FixedMark cfg)" .
  have zeros: "loadWord cfg (heap v1) (body + unat sz + j) = 0" if "j < unat ms" for j
    unfolding loadWord_def
  proof (rule loadAt_zero)
    fix k
    assume k: "k < unat (TargetBytesPerWord cfg)"
    then have "j * w + k < Suc j * w" by (simp add: w_def)
    also have "\<dots> \<le> unat ms * w" using that by (intro mult_le_mono1) simp
    finally have "j * w + k < unat ms * w" .
    then show "heap v1 ((body + unat sz + j) * unat (TargetBytesPerWord cfg) + k) = 0"
      by (simp add: hv memset_def msw w_def [symmetric] algebra_simps)
  qed
  have "number = position v + TargetFixieSizeInWords cfg + 1"
    by (simp add: num body_def)
  with age hasMask size_field mark zeros h5 show ?thesis
    by (auto simp: ms_def)
qed

lemma bit_decodeLE:
  "bit (decodeLE bs) n \<longleftrightarrow> n div 8 < length bs \<and> bit (bs ! (n div 8)) (n mod 8)"
  unfolding decodeLE_def
  using bit_horner_sum_uint_exp_iff [where 'a = 8, of bs n] by simp

lemma encodeLE_decodeLE: "encodeLE (length bs) (decodeLE bs) = bs"
proof (rule nth_equalityI)
  show "length (encodeLE (length bs) (decodeLE bs)) = length bs" by simp
next
  fix i
  assume "i < length (encodeLE (length bs) (decodeLE bs))"
  then have i: "i < length bs" by simp
  have "(word_of_int (drop_bit (8 * i) (decodeLE bs)) :: byte) = bs ! i"
  proof (rule bit_word_eqI)
    fix k
    assume "k < LENGTH(8)"
    then have k: "k < 8" by simp
    then have "(8 * i + k) div 8 = i" "(8 * i + k) mod 8 = k" by simp_all
    with k i show "bit (word_of_int (drop_bit (8 * i) (decodeLE bs)) :: byte) k = bit (bs ! i) k"
      by (simp add: bit_word_of_int_iff bit_drop_bit_eq bit_decodeLE)
  qed
  with i show "encodeLE (length bs) (decodeLE bs) ! i = bs ! i"
    by (simp add: encodeLE_def)
qed

lemma size_field_reads:
  assumes "load_bytes h (base + TargetFixieSize) 4 = encode cfg 4 (TARGET_V cfg 4 (uint (sz :: unsigned)))"
  shows "fixieSizeField cfg h base = uint sz"
proof -
  have t: "take_bit 32 (uint sz) = uint sz"
    by (simp add: take_bit_int_eq_self uint_bounded [of sz, simplified])
  have e: "encodeLE 4 (decodeLE (rev (encodeLE 4 (uint sz)))) = rev (encodeLE 4 (uint sz))"
    using encodeLE_decodeLE [of "rev (encodeLE 4 (uint sz))"] by simp
  show ?thesis
    using assms decodeLE_encodeLE [of 4 "uint sz"] t e
    by (auto simp: fixieSizeField_def targetBigEndian_def encode_def TARGET_V_def Let_def)
qed

lemma fixieSizeField_cong:
  "(\<And>k. k < 4 \<Longrightarrow> h (base + TargetFixieSize + k) = h' (base + TargetFixieSize + k)) \<Longrightarrow>
     fixieSizeField cfg h base = fixieSizeField cfg h' base"
  unfolding fixieSizeField_def Let_def
  by (rule arg_cong [where f = decodeLE]) (simp add: load_bytes_def)

lemma visit_ex_heap:
  assumes "currentObject v = 20" "currentOffset v = 1" "currentNumber v = 1"
    and "visit cfg_ex vm_ex typeMaps_ex n v = Inr v'" and "8 \<le> x"
  shows "heap v' x = heap v x"
  using assms
  by (auto simp: visit_def targetOffset_ex20 Let_def storeWord_def storeAt_def store_bytes_def)

text \<open>The fill loop and the builders.\<close>

lemma installFields_result:
  "installFields es m0 = Inr m \<Longrightarrow>
     fixedFields m = fixedFields m0 @ map entryField es
     \<and> length (targetFixedOffsets m) = length (targetFixedOffsets m0)
     \<and> fixedFieldCount m = fixedFieldCount m0 \<and> kind m = kind m0
     \<and> buildFixedSizeInWords m = buildFixedSizeInWords m0
     \<and> targetFixedSizeInWords m = targetFixedSizeInWords m0
     \<and> (\<forall>e \<in> set es. fst e)"
proof (induction es arbitrary: m0)
  case Nil
  then show ?case by simp
next
  case (Cons e es)
  obtain ok ty bo to where e: "e = (ok, ty, bo, to)" by (cases e)
  from Cons.prems e have ok: ok and r: "unat bo < length (targetFixedOffsets m0)"
    and rest: "installFields es
          (m0\<lparr>targetFixedOffsets := (targetFixedOffsets m0)[unat bo := to],
             fixedFields := fixedFields m0
                            @ [\<lparr>field_type = ty, field_offset = bo, field_targetOffset = to\<rparr>]\<rparr>)
          = Inr m"
    by (auto split: if_splits)
  from Cons.IH [OF rest] ok e show ?case by (simp add: entryField_def)
qed

lemma poolTypes_done: "\<not> i < n \<Longrightarrow> poolTypes cfg n i types s = Inr (types, s)"
  by (subst poolTypes.simps) simp

lemma poolTypes_last:
  assumes "tag \<noteq> CONSTANT_Long cfg" "tag \<noteq> CONSTANT_Double cfg"
    and "poolTypes cfg n i types (tag # rest) = Inr (types', s')" and "n = Suc i"
  shows "types' = types[i := Type_object] \<or> types' = types[i := Type_int32_t]"
  using assms
  by (subst (asm) poolTypes.simps)
     (auto simp: read1_def poolTypes_done split: if_splits sum.splits prod.splits)

lemma decodeLE_2: "decodeLE [2, 0] = 2"
  by (simp add: decodeLE_def)

lemma ebind_Some_Inr: "ebind x (\<lambda>m. Inr (Some m)) = Inr r \<Longrightarrow> \<exists>m. x = Inr m \<and> r = Some m"
  by (cases x) auto

lemma types0: "(replicate 3 Type_none)[0 := Type_object, Suc 0 := Type_intptr_t]
                 = [Type_object, Type_intptr_t, Type_none]"
  by (simp add: numeral_3_eq_3)

lemma makePoolMap_one:
  "makePoolMap cfg (m3 # m2 # m1 # m0 # mi1 # mi0 # ma1 # ma0 # 0 # 2 # rest') =
     (if (word_of_int (decodeLE [m0, m1, m2, m3]) :: 32 word) \<noteq> 0xCAFEBABE
      then Inl MalformedClass
      else ebind (poolTypes cfg 3 2 [Type_object, Type_intptr_t, Type_none] rest')
             (\<lambda>r.
                ebind (installFields
                         (map (\<lambda>i. (word_of_nat i < (3 :: unsigned), fst r ! i,
                                     word_of_nat i * BytesPerWord cfg,
                                     word_of_nat i * TargetBytesPerWord cfg))
                              [0..<3])
                         (newTypeMap cfg 3 3 3 PoolKind 0 0 Type_none))
                  (\<lambda>m. Inr (Some m))))"
  by (simp add: makePoolMap_def poolMap_def read4_def read2_def decodeLE_2 Let_def types0)

lemma scanField_result:
  assumes "scanField cfg f st = Inr st'"
  shows "(if isStatic cfg f
          then staticTypes st' = staticTypes st @ [tagOf cfg f]
             \<and> buildStaticOffsets st' = buildStaticOffsets st @ [fieldOffset f]
             \<and> length (targetStaticOffsets st') = Suc (length (targetStaticOffsets st))
             \<and> memberTypes st' = memberTypes st
             \<and> buildMemberOffsets st' = buildMemberOffsets st
             \<and> targetMemberOffsets st' = targetMemberOffsets st
          else memberTypes st' = memberTypes st @ [tagOf cfg f]
             \<and> buildMemberOffsets st' = buildMemberOffsets st @ [fieldOffset f]
             \<and> length (targetMemberOffsets st') = Suc (length (targetMemberOffsets st))
             \<and> staticTypes st' = staticTypes st
             \<and> buildStaticOffsets st' = buildStaticOffsets st
             \<and> targetStaticOffsets st' = targetStaticOffsets st)"
  using assms
  by (auto simp: scanField_def isStatic_def tagOf_def ebind_eq_Inr Let_def split: if_splits)

lemma scan_result:
  "foldE (scanField cfg) fs st = Inr st' \<Longrightarrow>
     memberTypes st' = memberTypes st @ map (tagOf cfg) (filter (\<lambda>f. \<not> isStatic cfg f) fs)
   \<and> buildMemberOffsets st'
       = buildMemberOffsets st @ map fieldOffset (filter (\<lambda>f. \<not> isStatic cfg f) fs)
   \<and> length (targetMemberOffsets st')
       = length (targetMemberOffsets st) + length (filter (\<lambda>f. \<not> isStatic cfg f) fs)
   \<and> staticTypes st' = staticTypes st @ map (tagOf cfg) (filter (isStatic cfg) fs)
   \<and> buildStaticOffsets st'
       = buildStaticOffsets st @ map fieldOffset (filter (isStatic cfg) fs)
   \<and> length (targetStaticOffsets st')
       = length (targetStaticOffsets st) + length (filter (isStatic cfg) fs)"
proof (induction fs arbitrary: st)
  case Nil
  then show ?case by simp
next
  case (Cons f fs)
  from Cons.prems obtain st1 where s: "scanField cfg f st = Inr st1"
    and r: "foldE (scanField cfg) fs st1 = Inr st'"
    by (auto simp: ebind_eq_Inr)
  from scanField_result [OF s] Cons.IH [OF r] show ?case
    by (cases "isStatic cfg f") simp_all
qed

lemma tagOf_char_short:
  "fieldCode f = CharField \<or> fieldCode f = ShortField \<Longrightarrow> tagOf cfg f = Type_int8_t"
  by (auto simp: tagOf_def fieldType_def Let_def)

lemma fields_of_entries:
  assumes "installFields (map (\<lambda>i. (g i, ts ! i, bs ! i, tos ! i)) [0..<n]) m0 = Inr m"
    and "fixedFields m0 = []" and "n = length ts" and "length bs = n" and "length tos = n"
  shows "map field_type (fixedFields m) = ts \<and> map field_offset (fixedFields m) = bs
       \<and> map field_targetOffset (fixedFields m) = tos"
proof -
  from installFields_result [OF assms(1)] assms(2)
  have f: "fixedFields m = map (\<lambda>i. entryField (g i, ts ! i, bs ! i, tos ! i)) [0..<n]"
    by (simp add: comp_def)
  have "map field_type (fixedFields m) = map (\<lambda>i. ts ! i) [0..<length ts]"
    by (simp add: f assms(3) entryField_def comp_def)
  moreover have "map field_offset (fixedFields m) = map (\<lambda>i. bs ! i) [0..<length bs]"
    by (simp add: f assms(4) entryField_def comp_def)
  moreover have "map field_targetOffset (fixedFields m) = map (\<lambda>i. tos ! i) [0..<length tos]"
    by (simp add: f assms(5) entryField_def comp_def)
  ultimately show ?thesis by (simp add: map_nth)
qed

lemma field_at:
  assumes "map field_type flds = ts" and "map field_offset flds = bs"
    and "i < length ts" and "ts ! i = t" and "bs ! i = b"
  shows "\<exists>fld \<in> set flds. field_offset fld = b \<and> field_type fld = t"
proof -
  from assms(1,3) have i: "i < length flds" by auto
  then have "flds ! i \<in> set flds" by simp
  moreover have "field_type (flds ! i) = map field_type flds ! i"
    "field_offset (flds ! i) = map field_offset flds ! i"
    using i by simp_all
  then have "field_type (flds ! i) = t" "field_offset (flds ! i) = b"
    using assms by simp_all
  ultimately show ?thesis by blast
qed

lemma installFields_consistent:
  assumes "installFields es m0 = Inr m"
    and "distinct (map (\<lambda>e. fst (snd (snd e))) es)"
    and "\<forall>f \<in> set (fixedFields m0).
           field_offset f \<notin> set (map (\<lambda>e. fst (snd (snd e))) es)
           \<and> unat (field_offset f) < length (targetFixedOffsets m0)
           \<and> targetFixedOffsets m0 ! unat (field_offset f) = field_targetOffset f"
  shows "offsetsConsistent m"
  using assms
proof (induction es arbitrary: m0)
  case Nil
  then show ?case by (simp add: offsetsConsistent_def)
next
  case (Cons e es)
  obtain ok ty bo to where e: "e = (ok, ty, bo, to)" by (cases e)
  let ?m1 = "m0\<lparr>targetFixedOffsets := (targetFixedOffsets m0)[unat bo := to],
                 fixedFields := fixedFields m0
                            @ [\<lparr>field_type = ty, field_offset = bo, field_targetOffset = to\<rparr>]\<rparr>"
  from Cons.prems(1) e have r: "unat bo < length (targetFixedOffsets m0)"
    and rest: "installFields es ?m1 = Inr m"
    by (auto split: if_splits)
  from Cons.prems(2) e have d: "distinct (map (\<lambda>e. fst (snd (snd e))) es)"
    and nb: "bo \<notin> set (map (\<lambda>e. fst (snd (snd e))) es)"
    by simp_all
  have "\<forall>f \<in> set (fixedFields ?m1).
           field_offset f \<notin> set (map (\<lambda>e. fst (snd (snd e))) es)
           \<and> unat (field_offset f) < length (targetFixedOffsets ?m1)
           \<and> targetFixedOffsets ?m1 ! unat (field_offset f) = field_targetOffset f"
  proof
    fix f
    assume "f \<in> set (fixedFields ?m1)"
    then consider (old) "f \<in> set (fixedFields m0)"
      | (new) "f = \<lparr>field_type = ty, field_offset = bo, field_targetOffset = to\<rparr>"
      by auto
    then show "field_offset f \<notin> set (map (\<lambda>e. fst (snd (snd e))) es)
           \<and> unat (field_offset f) < length (targetFixedOffsets ?m1)
           \<and> targetFixedOffsets ?m1 ! unat (field_offset f) = field_targetOffset f"
    proof cases
      case old
      with Cons.prems(3) e have a: "field_offset f \<noteq> bo"
        "field_offset f \<notin> set (map (\<lambda>e. fst (snd (snd e))) es)"
        "unat (field_offset f) < length (targetFixedOffsets m0)"
        "targetFixedOffsets m0 ! unat (field_offset f) = field_targetOffset f"
        by auto
      from a(1) have "unat (field_offset f) \<noteq> unat bo" by (simp add: word_unat_eq_iff)
      with a show ?thesis by simp
    next
      case new
      with nb r show ?thesis by simp
    qed
  qed
  from Cons.IH [OF rest d this] show ?case .
qed

lemma map_nth3:
  assumes "length bs = length ts" and "length tos = length ts"
  shows "map (\<lambda>e. fst (snd e)) (map (\<lambda>i. (g i, ts ! i, bs ! i, tos ! i)) [0..<length ts]) = ts"
    and "map (\<lambda>e. fst (snd (snd e))) (map (\<lambda>i. (g i, ts ! i, bs ! i, tos ! i)) [0..<length ts])
           = bs"
proof -
  show "map (\<lambda>e. fst (snd e)) (map (\<lambda>i. (g i, ts ! i, bs ! i, tos ! i)) [0..<length ts]) = ts"
    by (simp add: comp_def map_nth)
  have "map (\<lambda>e. fst (snd (snd e))) (map (\<lambda>i. (g i, ts ! i, bs ! i, tos ! i)) [0..<length ts])
          = map (\<lambda>i. bs ! i) [0..<length bs]"
    by (simp add: comp_def assms)
  then show "map (\<lambda>e. fst (snd (snd e)))
               (map (\<lambda>i. (g i, ts ! i, bs ! i, tos ! i)) [0..<length ts]) = bs"
    by (simp add: map_nth)
qed

lemma scanned_lists:
  assumes "foldE (scanField cfg) fieldTable (initFieldScan cfg) = Inr st"
  shows "memberTypes st
           = Type_object # map (tagOf cfg) (filter (\<lambda>f. \<not> isStatic cfg f) fieldTable)"
    and "buildMemberOffsets st
           = 0 # map fieldOffset (filter (\<lambda>f. \<not> isStatic cfg f) fieldTable)"
    and "length (targetMemberOffsets st)
           = Suc (length (filter (\<lambda>f. \<not> isStatic cfg f) fieldTable))"
    and "staticTypes st
           = Type_object # Type_intptr_t # map (tagOf cfg) (filter (isStatic cfg) fieldTable)"
    and "buildStaticOffsets st
           = 0 # BytesPerWord cfg # map fieldOffset (filter (isStatic cfg) fieldTable)"
    and "length (targetStaticOffsets st)
           = Suc (Suc (length (filter (isStatic cfg) fieldTable)))"
  using scan_result [OF assms] by (simp_all add: initFieldScan_def)

lemma newTypeMap_fields [simp]: "fixedFields (newTypeMap cfg a b c k d e t) = []"
  by (simp add: newTypeMap_def)

lemma makeFieldMaps_member:
  assumes "makeFieldMaps cfg fixedSize statics fieldTable = Inr (mm, sm)"
  shows "\<exists>st es m0.
           foldE (scanField cfg) fieldTable (initFieldScan cfg) = Inr st
         \<and> installFields es m0 = Inr mm \<and> fixedFields m0 = []
         \<and> map (\<lambda>e. fst (snd e)) es = memberTypes st
         \<and> map (\<lambda>e. fst (snd (snd e))) es = buildMemberOffsets st"
proof -
  from assms obtain st where
    st: "foldE (scanField cfg) fieldTable (initFieldScan cfg) = Inr st"
    by (auto simp: makeFieldMaps_def ebind_eq_Inr)
  note l = scanned_lists [OF st]
  define m0 where "m0 = newTypeMap cfg (ceiling fixedSize (BytesPerWord cfg))
                    (ceiling (targetMemberOffset st) (TargetBytesPerWord cfg))
                    (word_of_nat (length (memberTypes st))) NormalKind 0 0 Type_none"
  define es where "es = map (\<lambda>i. (buildMemberOffsets st ! i
                              < buildFixedSizeInWords m0 * BytesPerWord cfg,
                            memberTypes st ! i, buildMemberOffsets st ! i,
                            targetMemberOffsets st ! i))
                     [0..<length (memberTypes st)]"
  from assms obtain mm' where i: "installFields es m0 = Inr mm'"
    and k: "(case statics of
           None \<Rightarrow> Inr (mm', None)
         | Some singletonCount \<Rightarrow>
             (let map1 = newTypeMap cfg (singletonCount + 2)
                           (ceiling (targetStaticOffset st) (TargetBytesPerWord cfg))
                           (word_of_nat (length (staticTypes st))) SingletonKind 0 0 Type_none
              in ebind (installFields
                          (map (\<lambda>i. (buildStaticOffsets st ! i
                                        < buildFixedSizeInWords map1 * BytesPerWord cfg,
                                      staticTypes st ! i, buildStaticOffsets st ! i,
                                      targetStaticOffsets st ! i))
                               [0..<length (staticTypes st)])
                          map1) (\<lambda>staticMap. Inr (mm', Some staticMap)))) = Inr (mm, sm)"
    unfolding makeFieldMaps_def st ebind_Inr Let_def es_def m0_def ebind_eq_Inr by blast
  from k have "mm' = mm"
    by (cases statics) (auto simp: Let_def ebind_eq_Inr)
  moreover have "fixedFields m0 = []" by (simp add: m0_def)
  moreover have "map (\<lambda>e. fst (snd e)) es = memberTypes st"
    "map (\<lambda>e. fst (snd (snd e))) es = buildMemberOffsets st"
    unfolding es_def by (rule map_nth3; simp add: l)+
  ultimately show ?thesis using st i by blast
qed

lemma makeFieldMaps_static:
  assumes "makeFieldMaps cfg fixedSize statics fieldTable = Inr (mm, Some sm)"
  shows "\<exists>st es m0.
           foldE (scanField cfg) fieldTable (initFieldScan cfg) = Inr st
         \<and> installFields es m0 = Inr sm \<and> fixedFields m0 = []
         \<and> map (\<lambda>e. fst (snd e)) es = staticTypes st
         \<and> map (\<lambda>e. fst (snd (snd e))) es = buildStaticOffsets st"
proof -
  from assms obtain st where
    st: "foldE (scanField cfg) fieldTable (initFieldScan cfg) = Inr st"
    by (auto simp: makeFieldMaps_def ebind_eq_Inr)
  note l = scanned_lists [OF st]
  from assms obtain sc where sc: "statics = Some sc"
    unfolding makeFieldMaps_def st ebind_Inr Let_def
    by (cases statics) (auto simp: ebind_eq_Inr)
  define m0 where "m0 = newTypeMap cfg (sc + 2)
                           (ceiling (targetStaticOffset st) (TargetBytesPerWord cfg))
                           (word_of_nat (length (staticTypes st))) SingletonKind 0 0 Type_none"
  define es where "es = map (\<lambda>i. (buildStaticOffsets st ! i
                                        < buildFixedSizeInWords m0 * BytesPerWord cfg,
                                      staticTypes st ! i, buildStaticOffsets st ! i,
                                      targetStaticOffsets st ! i))
                               [0..<length (staticTypes st)]"
  from assms have i: "installFields es m0 = Inr sm"
    unfolding makeFieldMaps_def st ebind_Inr Let_def sc option.case es_def m0_def
    by (auto simp: ebind_eq_Inr)
  moreover have "fixedFields m0 = []" by (simp add: m0_def)
  moreover have "map (\<lambda>e. fst (snd e)) es = staticTypes st"
    "map (\<lambda>e. fst (snd (snd e))) es = buildStaticOffsets st"
    unfolding es_def by (rule map_nth3; simp add: l)+
  ultimately show ?thesis using st by blast
qed

lemma installed_fields:
  assumes "installFields es m0 = Inr m" and "fixedFields m0 = []"
  shows "map field_type (fixedFields m) = map (\<lambda>e. fst (snd e)) es"
    and "map field_offset (fixedFields m) = map (\<lambda>e. fst (snd (snd e))) es"
  using installFields_result [OF assms(1)] assms(2)
  by (simp_all add: entryField_def comp_def)

lemma cfg_ex_tags [simp]:
  "CONSTANT_Class cfg_ex = 7" "CONSTANT_String cfg_ex = 8" "CONSTANT_Integer cfg_ex = 3"
  "CONSTANT_Float cfg_ex = 4" "CONSTANT_NameAndType cfg_ex = 12" "CONSTANT_Fieldref cfg_ex = 9"
  "CONSTANT_Methodref cfg_ex = 10" "CONSTANT_InterfaceMethodref cfg_ex = 11"
  "CONSTANT_Long cfg_ex = 5" "CONSTANT_Double cfg_ex = 6" "CONSTANT_Utf8 cfg_ex = 1"
  by (simp_all add: cfg_ex_def)

lemma upt_small: "[0..<2] = [0, 1 :: nat]" "[0..<3] = [0, 1, 2 :: nat]"
  by (simp_all add: upt_rec)

lemma magic_ex: "(word_of_int (decodeLE [0xBE, 0xBA, 0xFE, 0xCA]) :: 32 word) = 0xCAFEBABE"
  by (simp add: decodeLE_def)

lemma poolTypes_ex:
  "poolTypes cfg_ex 3 2 [Type_object, Type_intptr_t, Type_none] [1, 0, 1, 0x41]
     = Inr ([Type_object, Type_intptr_t, Type_object], [])"
  by (subst poolTypes.simps)
     (simp add: read1_def read2_def skip_def decodeLE_def poolTypes_done)

lemma makePoolMap_ex: "\<exists>m. makePoolMap cfg_ex class_ex = Inr (Some m)"
  unfolding class_ex_def makePoolMap_one
  by (simp add: magic_ex poolTypes_ex upt_small newTypeMap_def)

lemma alignLoop_ex: "alignLoop 4 2 = 4"
  by (subst alignLoop.simps) simp

lemma scanField_ex:
  "scanField cfg_ex field_ex (initFieldScan cfg_ex) =
     Inr ((initFieldScan cfg_ex)\<lparr>memberTypes := [Type_object, Type_int8_t],
            targetMemberOffsets := [0, 4], targetMemberOffset := 6,
            buildMemberOffset := 8, buildMemberOffsets := [0, 8]\<rparr>)"
  by (simp add: scanField_def fieldType_def field_ex_def fieldSize_ex_def initFieldScan_def
                alignLoop_ex Let_def)

lemma makeFieldMaps_ex: "\<exists>mm. makeFieldMaps cfg_ex 16 None [field_ex] = Inr (mm, None)"
  by (simp add: makeFieldMaps_def scanField_ex Let_def)
     (simp add: newTypeMap_def ceiling_def)

text \<open>The offset table agrees with the field list.\<close>

lemma unat_add_le: "unat (a + b :: 'a::len word) \<le> unat a + unat b"
  by (simp add: unat_word_ariths)

lemma pool_count_bound:
  fixes c :: "16 word"
  shows "unat (ucast c - 1 + 2 :: unsigned) \<le> 65536"
proof -
  have lt: "unat c < 65536" using unsigned_less [of c] by simp
  then have "unat c < 2 ^ 32" by simp
  then have u: "unat (ucast c :: unsigned) = unat c"
    by (simp add: unsigned_ucast_eq take_bit_nat_eq_self)
  have "unat (ucast c + 1 :: unsigned) \<le> unat (ucast c :: unsigned) + unat (1 :: unsigned)"
    by (rule unat_add_le)
  with u lt have b: "unat (ucast c + 1 :: unsigned) \<le> 65536" by simp
  have "(ucast c - 1 + 2 :: unsigned) = ucast c + 1" by simp
  then show ?thesis using b by (simp only:)
qed

lemma scaled_index_inj:
  assumes "w = 4 \<or> w = (8 :: unsigned)" and "i \<le> 65536" and "j \<le> 65536"
    and "word_of_nat i * w = word_of_nat j * w"
  shows "i = j"
proof -
  have a: "unat (word_of_nat k * w) = k * unat w" if "k \<le> 65536" for k
  proof -
    from that assms(1) have "k * unat w < 2 ^ 32" by auto
    with that show ?thesis by (simp add: unat_word_ariths unat_of_nat)
  qed
  from assms(4) have "unat (word_of_nat i * w) = unat (word_of_nat j * w)" by simp
  with a [OF assms(2)] a [OF assms(3)] assms(1) show ?thesis by auto
qed

lemma pool_offsets_distinct:
  assumes "wf_config cfg" and "n \<le> 65536"
  shows "distinct (map (\<lambda>i. word_of_nat i * BytesPerWord cfg) [0..<n])"
proof -
  have "inj_on (\<lambda>i. word_of_nat i * BytesPerWord cfg) (set [0..<n])"
  proof (rule inj_onI)
    fix i j
    assume "i \<in> set [0..<n]" "j \<in> set [0..<n]"
      and e: "word_of_nat i * BytesPerWord cfg = word_of_nat j * BytesPerWord cfg"
    with assms(2) have "i \<le> 65536" "j \<le> 65536" by auto
    with assms(1) e show "i = j"
      by (intro scaled_index_inj [of "BytesPerWord cfg"]) (auto simp: wf_config_def)
  qed
  then show ?thesis by (simp add: distinct_map)
qed

lemma poolMap_Some:
  assumes "poolMap cfg count s = Inr (Some m)"
  shows "\<exists>es m0. installFields es m0 = Inr m \<and> fixedFields m0 = []
           \<and> map (\<lambda>e. fst (snd (snd e))) es
               = map (\<lambda>i. word_of_nat i * BytesPerWord cfg) [0..<unat (count + 2)]"
proof -
  from assms obtain r where
    y: "ebind (installFields
                 (map (\<lambda>i. (word_of_nat i < count + 2, fst r ! i,
                             word_of_nat i * BytesPerWord cfg,
                             word_of_nat i * TargetBytesPerWord cfg))
                      [0..<unat (count + 2)])
                 (newTypeMap cfg (count + 2) (count + 2) (count + 2) PoolKind 0 0 Type_none))
            (\<lambda>m. Inr (Some m)) = Inr (Some m)"
    unfolding poolMap_def Let_def
    by (auto simp: ebind_eq_Inr split: if_splits)
  define es where "es = map (\<lambda>i. (word_of_nat i < count + 2, fst r ! i,
                      word_of_nat i * BytesPerWord cfg,
                      word_of_nat i * TargetBytesPerWord cfg))
               [0..<unat (count + 2)]"
  from ebind_Some_Inr [OF y] have "installFields es
          (newTypeMap cfg (count + 2) (count + 2) (count + 2) PoolKind 0 0 Type_none) = Inr m"
    by (simp add: es_def)
  moreover have "map (\<lambda>e. fst (snd (snd e))) es
        = map (\<lambda>i. word_of_nat i * BytesPerWord cfg) [0..<unat (count + 2)]"
    by (simp add: es_def comp_def)
  ultimately show ?thesis using newTypeMap_fields by blast
qed

lemma makePoolMap_Some:
  assumes "makePoolMap cfg s = Inr (Some m)"
  shows "\<exists>(c :: 16 word) s4. poolMap cfg (ucast c - 1) s4 = Inr (Some m)"
  using assms unfolding makePoolMap_def Let_def
  by (auto simp: ebind_eq_Inr split: if_splits)

lemma installFields_consistent0:
  assumes "installFields es m0 = Inr m" and "fixedFields m0 = []"
    and "distinct (map (\<lambda>e. fst (snd (snd e))) es)"
  shows "offsetsConsistent m"
  using installFields_consistent [OF assms(1,3)] assms(2) by simp

lemma pool_consistent:
  assumes "wf_config cfg" and "makePoolMap cfg s = Inr (Some m)"
  shows "offsetsConsistent m"
proof -
  from makePoolMap_Some [OF assms(2)] obtain c :: "16 word" and s4 where
    "poolMap cfg (ucast c - 1) s4 = Inr (Some m)"
    by blast
  from poolMap_Some [OF this] obtain es m0 where
    "installFields es m0 = Inr m" "fixedFields m0 = []"
    "map (\<lambda>e. fst (snd (snd e))) es
       = map (\<lambda>i. word_of_nat i * BytesPerWord cfg) [0..<unat (ucast c - 1 + 2 :: unsigned)]"
    by blast
  with pool_offsets_distinct [OF assms(1) pool_count_bound [of c]] show ?thesis
    by (intro installFields_consistent0 [of es m0 m]) simp_all
qed

lemma fields_consistent:
  assumes "makeFieldMaps cfg fixedSize statics fieldTable = Inr (mm, sm)"
  shows "distinct (0 # map fieldOffset (filter (\<lambda>f. \<not> isStatic cfg f) fieldTable))
           \<Longrightarrow> offsetsConsistent mm"
    and "distinct (0 # BytesPerWord cfg # map fieldOffset (filter (isStatic cfg) fieldTable))
           \<Longrightarrow> sm = Some sm' \<Longrightarrow> offsetsConsistent sm'"
proof -
  assume d: "distinct (0 # map fieldOffset (filter (\<lambda>f. \<not> isStatic cfg f) fieldTable))"
  from makeFieldMaps_member [OF assms] obtain st es m0 where
    st: "foldE (scanField cfg) fieldTable (initFieldScan cfg) = Inr st"
    and i: "installFields es m0 = Inr mm" "fixedFields m0 = []"
    and e: "map (\<lambda>e. fst (snd (snd e))) es = buildMemberOffsets st"
    by blast
  from d e scanned_lists(2) [OF st] have "distinct (map (\<lambda>e. fst (snd (snd e))) es)" by simp
  with i show "offsetsConsistent mm" by (rule installFields_consistent0)
next
  assume d: "distinct (0 # BytesPerWord cfg # map fieldOffset (filter (isStatic cfg) fieldTable))"
    and s: "sm = Some sm'"
  from makeFieldMaps_static [OF assms [unfolded s]] obtain st es m0 where
    st: "foldE (scanField cfg) fieldTable (initFieldScan cfg) = Inr st"
    and i: "installFields es m0 = Inr sm'" "fixedFields m0 = []"
    and e: "map (\<lambda>e. fst (snd (snd e))) es = buildStaticOffsets st"
    by blast
  from d e scanned_lists(5) [OF st] have "distinct (map (\<lambda>e. fst (snd (snd e))) es)" by simp
  with i show "offsetsConsistent sm'" by (rule installFields_consistent0)
qed

lemma alignLoop_upto:
  "unat n dvd M \<Longrightarrow> unat x \<le> M \<Longrightarrow> M < 2 ^ 32 \<Longrightarrow>
     unat x \<le> unat (alignLoop x n) \<and> unat (alignLoop x n) \<le> M"
proof (induction x n rule: alignLoop.induct)
  case (1 x n)
  show ?case
  proof (cases "n \<noteq> 0 \<and> x mod n \<noteq> 0")
    case True
    then have "unat (x mod n) \<noteq> 0" by (simp add: unat_eq_0)
    then have m: "unat x mod unat n \<noteq> 0" by (simp add: unat_mod)
    with "1.prems"(1) have "unat x \<noteq> M" by (auto simp: dvd_eq_mod_eq_0)
    with "1.prems"(2) have lt: "unat x < M" by simp
    with "1.prems"(3) have "unat x + 1 < 2 ^ 32" by simp
    then have s: "unat (x + 1) = unat x + 1"
      by (simp add: unat_word_ariths)
    with lt have "unat (x + 1) \<le> M" by simp
    moreover have e: "alignLoop x n = alignLoop (x + 1) n"
      using True by (subst alignLoop.simps) simp
    ultimately show ?thesis
      using "1.IH" [OF True "1.prems"(1) _ "1.prems"(3)] s by simp
  next
    case False
    then have "alignLoop x n = x" by (subst alignLoop.simps) auto
    with "1.prems" show ?thesis by simp
  qed
qed

lemma alignLoop_bounds:
  assumes "n \<noteq> 0" and "unat x + unat n \<le> 2 ^ 32"
  shows "unat x \<le> unat (alignLoop x n) \<and> unat (alignLoop x n) < unat x + unat n"
proof -
  define d where "d = unat n"
  define a where "a = unat x"
  define M where "M = ((a + d - 1) div d) * d"
  from assms(1) have d: "0 < d" by (simp add: d_def unat_gt_0)
  have "M = (a + d - 1) - (a + d - 1) mod d"
    unfolding M_def by (simp add: minus_mod_eq_div_mult [symmetric])
  moreover have "(a + d - 1) mod d < d" using d by simp
  ultimately have lo: "a \<le> M" and hi: "M < a + d" using d by linarith+
  have "d dvd M" by (simp add: M_def)
  moreover from hi assms(2) have "M < 2 ^ 32" by (simp add: a_def d_def)
  ultimately have "unat x \<le> unat (alignLoop x n) \<and> unat (alignLoop x n) \<le> M"
    using lo by (intro alignLoop_upto) (simp_all add: a_def d_def)
  with hi show ?thesis by (simp add: a_def d_def)
qed

lemma somes_append [simp]: "somes (xs @ ys) = somes xs @ somes ys"
  by (simp add: somes_def)

lemma somes_simps [simp]: "somes [] = []" "somes [Some x] = [x]" "somes [None] = []"
  by (simp_all add: somes_def)

lemma descType_size:
  assumes "wf_config cfg" and "descType cfg t = Inr (ty, bs, ts)" and "t \<noteq> Type_array"
  shows "bs \<noteq> 0 \<and> unat bs \<le> 8"
  using assms by (cases t) (auto simp: descType_def wf_config_def)

lemma scanDesc_inv:
  assumes wf: "wf_config cfg" and s: "scanDesc cfg t st = Inr st'"
    and inv: "descInv st k" and b: "16 * Suc k + 8 < (2 :: nat) ^ 32"
  shows "descInv st' (Suc k)"
proof -
  from s obtain ty bs ts where dt: "descType cfg t = Inr (ty, bs, ts)"
    by (auto simp: scanDesc_def ebind_eq_Inr)
  show ?thesis
  proof (cases "d_sawArray st \<or> t = Type_array")
    case True
    with s dt have "d_buildOffsets st' = d_buildOffsets st @ [None]"
      "d_buildOffset st' = d_buildOffset st"
      by (auto simp: scanDesc_def Let_def)
    with inv show ?thesis by (auto simp: descInv_def)
  next
    case False
    with descType_size [OF wf dt] have bs: "bs \<noteq> 0" "unat bs \<le> 8" by simp_all
    define bo where "bo = alignLoop (d_buildOffset st) bs"
    from False s dt have r: "d_buildOffsets st' = d_buildOffsets st @ [Some bo]"
      "d_buildOffset st' = bo + bs"
      by (auto simp: scanDesc_def Let_def bo_def split: if_splits)
    from inv have cur: "unat (d_buildOffset st) \<le> 8 + 16 * k" by (simp add: descInv_def)
    with bs b have "unat (d_buildOffset st) + unat bs \<le> 2 ^ 32" by simp
    from alignLoop_bounds [OF bs(1) this]
    have lo: "unat (d_buildOffset st) \<le> unat bo" and hi: "unat bo < unat (d_buildOffset st) + unat bs"
      by (simp_all add: bo_def)
    from hi cur bs b have "unat bo + unat bs < 2 ^ 32" by simp
    then have sum: "unat (bo + bs) = unat bo + unat bs"
      by (simp add: unat_word_ariths)
    from bs(1) have pos: "0 < unat bs" by (simp add: unat_gt_0)
    have new: "bo \<notin> set (somes (d_buildOffsets st))"
    proof
      assume "bo \<in> set (somes (d_buildOffsets st))"
      with inv have "unat bo < unat (d_buildOffset st)" by (simp add: descInv_def)
      with lo show False by simp
    qed
    have "\<forall>x \<in> set (somes (d_buildOffsets st)). unat x < unat bo + unat bs"
      using inv lo pos by (fastforce simp: descInv_def)
    with inv new sum pos hi cur bs show ?thesis
      by (auto simp: descInv_def r)
  qed
qed

lemma scanDesc_fold_inv:
  assumes wf: "wf_config cfg"
  shows "foldE (scanDesc cfg) ts st = Inr st' \<Longrightarrow> descInv st k \<Longrightarrow>
           16 * (k + length ts) + 8 < (2 :: nat) ^ 32 \<Longrightarrow> descInv st' (k + length ts)"
proof (induction ts arbitrary: st k)
  case Nil
  then show ?case by simp
next
  case (Cons t ts)
  from Cons.prems(1) obtain st1 where s: "scanDesc cfg t st = Inr st1"
    and r: "foldE (scanDesc cfg) ts st1 = Inr st'"
    by (auto simp: ebind_eq_Inr)
  from Cons.prems(3) have b: "16 * Suc k + 8 < (2 :: nat) ^ 32" by simp
  from scanDesc_inv [OF wf s Cons.prems(2) b] have i: "descInv st1 (Suc k)" .
  from Cons.prems(3) have "16 * (Suc k + length ts) + 8 < (2 :: nat) ^ 32" by simp
  from Cons.IH [OF r i this] show ?case by simp
qed

lemma descInv_init: "wf_config cfg \<Longrightarrow> descInv (initDescScan cfg) 0"
  by (auto simp: descInv_def initDescScan_def wf_config_def)

lemma take_somes_distinct:
  assumes "distinct (somes xs)" and "None \<notin> set (take n xs)"
  shows "distinct (map the (take n xs))"
proof -
  from assms(2) have "filter (\<lambda>x. x \<noteq> None) (take n xs) = take n xs"
    unfolding filter_id_conv by (metis option.exhaust)
  then have "somes (take n xs) = map the (take n xs)" by (simp add: somes_def)
  moreover have "somes xs = somes (take n xs) @ somes (drop n xs)"
    using somes_append [of "take n xs" "drop n xs"] by simp
  ultimately show ?thesis using assms(1) by simp
qed

lemma scanDesc_len:
  "scanDesc cfg t st = Inr st' \<Longrightarrow> length (d_buildOffsets st') = Suc (length (d_buildOffsets st))"
  by (auto simp: scanDesc_def ebind_eq_Inr Let_def split: if_splits)

lemma scanDesc_fold_len:
  "foldE (scanDesc cfg) ts st = Inr st' \<Longrightarrow>
     length (d_buildOffsets st') = length (d_buildOffsets st) + length ts"
proof (induction ts arbitrary: st)
  case Nil
  then show ?case by simp
next
  case (Cons t ts)
  from Cons.prems obtain st1 where s: "scanDesc cfg t st = Inr st1"
    and r: "foldE (scanDesc cfg) ts st1 = Inr st'"
    by (auto simp: ebind_eq_Inr)
  from scanDesc_len [OF s] Cons.IH [OF r] show ?case by simp
qed

lemma map_the_take:
  assumes "n \<le> length xs"
  shows "map (\<lambda>j. the (xs ! j)) [0..<n] = map the (take n xs)"
  using assms by (intro nth_equalityI) simp_all

lemma makeTypeMap_entries:
  assumes "makeTypeMap cfg source = Inr m"
  shows "\<exists>st es m0 n. foldE (scanDesc cfg) (takeWhile (\<lambda>t. t \<noteq> Type_none) source)
                         (initDescScan cfg) = Inr st
           \<and> installFields es m0 = Inr m \<and> fixedFields m0 = []
           \<and> n \<le> Suc (length (takeWhile (\<lambda>t. t \<noteq> Type_none) source))
           \<and> None \<notin> set (take n (d_buildOffsets st))
           \<and> map (\<lambda>e. fst (snd (snd e))) es = map (\<lambda>j. the (d_buildOffsets st ! j)) [0..<n]"
proof -
  let ?elems = "takeWhile (\<lambda>t. t \<noteq> Type_none) source"
  from assms obtain st where
    st: "foldE (scanDesc cfg) ?elems (initDescScan cfg) = Inr st"
    unfolding makeTypeMap_def Let_def by (auto simp: ebind_eq_Inr split: if_splits)
  define n where "n = (if d_sawArray st then length ?elems + 1 - 2 else length ?elems + 1)"
  define m0 where "m0 = newTypeMap cfg (ceiling (d_buildOffset st) (BytesPerWord cfg))
                     (ceiling (d_targetOffset st) (TargetBytesPerWord cfg))
                     (word_of_nat n) NormalKind
                     (if d_sawArray st then d_buildSize st else 0)
                     (if d_sawArray st then d_targetSize st else 0)
                     (if d_sawArray st then d_types st ! (length ?elems + 1 - 1) else Type_none)"
  define es where "es = map (\<lambda>j. (the (d_buildOffsets st ! j)
                        < buildFixedSizeInWords m0 * BytesPerWord cfg,
                      d_types st ! j, the (d_buildOffsets st ! j),
                      the (d_targetOffsets st ! j)))
               [0..<n]"
  from assms have i: "installFields es m0 = Inr m"
    and nn: "None \<notin> set (take n (d_buildOffsets st))"
    unfolding makeTypeMap_def Let_def st ebind_Inr es_def m0_def n_def
    by (auto split: if_splits)
  have "n \<le> Suc (length ?elems)" by (auto simp: n_def)
  moreover have "fixedFields m0 = []" by (simp add: m0_def)
  moreover have "map (\<lambda>e. fst (snd (snd e))) es = map (\<lambda>j. the (d_buildOffsets st ! j)) [0..<n]"
    by (simp add: es_def comp_def)
  ultimately show ?thesis using st i nn by blast
qed

lemma typeMap_consistent:
  assumes wf: "wf_config cfg" and b: "16 * length source + 8 < (2 :: nat) ^ 32"
    and m: "makeTypeMap cfg source = Inr m"
  shows "offsetsConsistent m"
proof -
  let ?elems = "takeWhile (\<lambda>t. t \<noteq> Type_none) source"
  from makeTypeMap_entries [OF m] obtain st es m0 n where
    st: "foldE (scanDesc cfg) ?elems (initDescScan cfg) = Inr st"
    and i: "installFields es m0 = Inr m" "fixedFields m0 = []"
    and n: "n \<le> Suc (length ?elems)"
    and nn: "None \<notin> set (take n (d_buildOffsets st))"
    and e: "map (\<lambda>e. fst (snd (snd e))) es = map (\<lambda>j. the (d_buildOffsets st ! j)) [0..<n]"
    by blast
  have "length ?elems \<le> length source" by (rule length_takeWhile_le)
  with b have "16 * (0 + length ?elems) + 8 < (2 :: nat) ^ 32" by simp
  from scanDesc_fold_inv [OF wf st descInv_init [OF wf] this]
  have d: "distinct (somes (d_buildOffsets st))" by (simp add: descInv_def)
  from scanDesc_fold_len [OF st] have "length (d_buildOffsets st) = Suc (length ?elems)"
    by (simp add: initDescScan_def)
  with n have "n \<le> length (d_buildOffsets st)" by simp
  from map_the_take [OF this] take_somes_distinct [OF d nn] e
  have "distinct (map (\<lambda>e. fst (snd (snd e))) es)" by simp
  from installFields_consistent0 [OF i this] show ?thesis .
qed

lemma alignLoop_exs: "alignLoop 8 4 = 8" "alignLoop 4 4 = 4"
  by (subst alignLoop.simps, simp)+

lemma scanField_ex2:
  "foldE (scanField cfg_ex) [field_ex, staticField_ex] (initFieldScan cfg_ex) =
     Inr \<lparr>memberTypes = [Type_object, Type_int8_t],
          buildMemberOffsets = [0, 8],
          targetMemberOffsets = [0, 4],
          buildMemberOffset = 8,
          targetMemberOffset = 6,
          staticTypes = [Type_object, Type_intptr_t, Type_int32_t],
          buildStaticOffsets = [0, 8, 16],
          targetStaticOffsets = [0, 4, 8],
          buildStaticOffset = 16,
          targetStaticOffset = 12\<rparr>"
  by (simp add: scanField_ex)
     (simp add: scanField_def fieldType_def staticField_ex_def fieldSize_ex_def
                initFieldScan_def alignLoop_exs Let_def)

lemma makeFieldMaps_ex2:
  "\<exists>mm sm'. makeFieldMaps cfg_ex 16 (Some 1) [field_ex, staticField_ex] = Inr (mm, Some sm')"
  by (simp add: makeFieldMaps_def scanField_ex2 Let_def del: foldE.simps)
     (simp add: newTypeMap_def ceiling_def)

lemma makeTypeMap_ex: "\<exists>m. makeTypeMap cfg_ex descriptor_ex = Inr m"
  by (simp add: makeTypeMap_def descriptor_ex_def scanDesc_def descType_def initDescScan_def
                alignLoop_exs Let_def)
     (simp add: newTypeMap_def ceiling_def)

text \<open>What a write above an address leaves alone.\<close>

lemma store_bytes_outside: "x < a \<or> a + length bs \<le> x \<Longrightarrow> store_bytes m a bs x = m x"
  by (auto simp: store_bytes_def)

lemma storeAt_outside: "x < a \<or> a + n \<le> x \<Longrightarrow> storeAt cfg n m a v x = m x"
  by (simp add: storeAt_def store_bytes_outside)

text \<open>
  The heap-constant pass: what it leaves alone, the bits it marks, the word a listener
  finds at its location, and when it returns.
\<close>

lemma ebind_assoc: "ebind (ebind x f) g = ebind x (\<lambda>v. ebind (f v) g)"
  by (cases x) simp_all

lemma foldE_append: "foldE f (xs @ ys) s = ebind (foldE f xs s) (foldE f ys)"
proof (induction xs arbitrary: s)
  case Nil
  then show ?case by simp
next
  case (Cons x xs)
  then show ?case by (cases "f x s") simp_all
qed

lemma resolveListener_frame:
  assumes "resolveListener cfg target pl (c0, m0) = Inr (c1, m1)" and "clearOf cfg pl a"
  shows "c1 a = c0 a"
proof -
  from resolveListener_Inr [OF assms(1)] have nn: "location pl \<ge> 0"
    and c1: "c1 = storeAt cfg (unat (TargetBytesPerWord cfg)) c0 (nat (location pl))
             (uint (target OR BootHeapOffset cfg OR (if flat pl then BootFlatConstant cfg else 0)))"
    by simp_all
  have w: "uint (TargetBytesPerWord cfg) = int (unat (TargetBytesPerWord cfg))" by simp
  from assms(2) nn have "a < nat (location pl) \<or> nat (location pl) + unat (TargetBytesPerWord cfg) \<le> a"
    unfolding clearOf_def w by linarith
  then show ?thesis unfolding c1 by (rule storeAt_outside)
qed

lemma listeners_frame:
  "foldE (resolveListener cfg target) ls (c0, m0) = Inr (c1, m1) \<Longrightarrow>
     \<forall>pl \<in> set ls. clearOf cfg pl a \<Longrightarrow> c1 a = c0 a"
proof (induction ls arbitrary: c0 m0)
  case Nil
  then show ?case by simp
next
  case (Cons pl ls)
  from Cons.prems(1) obtain c m where
    step: "resolveListener cfg target pl (c0, m0) = Inr (c, m)"
    and rest: "foldE (resolveListener cfg target) ls (c, m) = Inr (c1, m1)"
    by (auto simp: ebind_eq_Inr)
  from Cons.prems(2) have "clearOf cfg pl a" "\<forall>pl \<in> set ls. clearOf cfg pl a" by simp_all
  with Cons.IH [OF rest] resolveListener_frame [OF step] show ?case by simp
qed

lemma listeners_bits:
  "foldE (resolveListener cfg target) ls (c0, m0) = Inr (c1, m1) \<Longrightarrow>
     m1 = m0 \<union> bitOf ` set ls"
proof (induction ls arbitrary: c0 m0)
  case Nil
  then show ?case by simp
next
  case (Cons pl ls)
  from Cons.prems obtain c m where
    step: "resolveListener cfg target pl (c0, m0) = Inr (c, m)"
    and rest: "foldE (resolveListener cfg target) ls (c, m) = Inr (c1, m1)"
    by (auto simp: ebind_eq_Inr)
  from resolveListener_Inr [OF step] Cons.IH [OF rest] show ?case
    by (auto simp: bitOf_def)
qed

lemma apart_clear:
  assumes "apart cfg pl pl'" and "nat (location pl) \<le> a"
    and "a < nat (location pl) + unat (TargetBytesPerWord cfg)" and "location pl \<ge> 0"
  shows "clearOf cfg pl' a"
proof -
  have w: "uint (TargetBytesPerWord cfg) = int (unat (TargetBytesPerWord cfg))" by simp
  from assms show ?thesis unfolding apart_def clearOf_def w by linarith
qed

lemma listeners_value:
  assumes wf: "wf_config cfg"
    and r: "foldE (resolveListener cfg target) (ls1 @ pl # ls2) (c0, m0) = Inr (c1, m1)"
    and ap: "\<forall>pl' \<in> set ls2. apart cfg pl pl'"
  shows "location pl \<ge> 0
       \<and> loadAt cfg (unat (TargetBytesPerWord cfg)) c1 (nat (location pl))
           = uint (target OR BootHeapOffset cfg OR (if flat pl then BootFlatConstant cfg else 0))"
proof -
  from r obtain cma cmb where
    a: "foldE (resolveListener cfg target) ls1 (c0, m0) = Inr cma"
    and b: "resolveListener cfg target pl cma = Inr cmb"
    and c: "foldE (resolveListener cfg target) ls2 cmb = Inr (c1, m1)"
    by (auto simp: foldE_append ebind_eq_Inr)
  obtain ca ma where cma: "cma = (ca, ma)" by (cases cma)
  obtain cb mb where cmb: "cmb = (cb, mb)" by (cases cmb)
  from resolveListener_Inr [OF b [unfolded cma cmb]] have nn: "location pl \<ge> 0"
    and cb: "cb = storeAt cfg (unat (TargetBytesPerWord cfg)) ca (nat (location pl))
             (uint (target OR BootHeapOffset cfg OR (if flat pl then BootFlatConstant cfg else 0)))"
    by simp_all
  have "loadAt cfg (unat (TargetBytesPerWord cfg)) c1 (nat (location pl))
          = loadAt cfg (unat (TargetBytesPerWord cfg)) cb (nat (location pl))"
  proof (rule loadAt_cong)
    fix k
    assume k: "k < unat (TargetBytesPerWord cfg)"
    have "\<forall>pl' \<in> set ls2. clearOf cfg pl' (nat (location pl) + k)"
      using ap k nn by (auto intro!: apart_clear)
    from listeners_frame [OF c [unfolded cmb] this]
    show "c1 (nat (location pl) + k) = cb (nat (location pl) + k)" .
  qed
  also have "\<dots> = uint (target OR BootHeapOffset cfg OR (if flat pl then BootFlatConstant cfg else 0))"
    unfolding cb by (simp add: loadAt_storeAt take_bit_target_word [OF wf])
  finally show ?thesis using nn by simp
qed

lemma resolveConstant_Inr:
  assumes "resolveConstant cfg heapTable c (c0, m0) = Inr (c1, m1)"
  shows "heapTable (fst c) > 0"
    and "foldE (resolveListener cfg (heapTable (fst c))) (snd c) (c0, m0) = Inr (c1, m1)"
  using assms by (auto simp: resolveConstant_def Let_def split: if_splits)

lemma constants_frame:
  "foldE (resolveConstant cfg heapTable) cs (c0, m0) = Inr (c1, m1) \<Longrightarrow>
     \<forall>c \<in> set cs. \<forall>pl \<in> set (snd c). clearOf cfg pl a \<Longrightarrow> c1 a = c0 a"
proof (induction cs arbitrary: c0 m0)
  case Nil
  then show ?case by simp
next
  case (Cons c cs)
  from Cons.prems(1) obtain cm where
    step: "resolveConstant cfg heapTable c (c0, m0) = Inr cm"
    and rest: "foldE (resolveConstant cfg heapTable) cs cm = Inr (c1, m1)"
    by (auto simp: ebind_eq_Inr)
  obtain c' m' where cm: "cm = (c', m')" by (cases cm)
  from Cons.prems(2) have h: "\<forall>pl \<in> set (snd c). clearOf cfg pl a"
    and t: "\<forall>c \<in> set cs. \<forall>pl \<in> set (snd c). clearOf cfg pl a" by simp_all
  from listeners_frame [OF resolveConstant_Inr(2) [OF step [unfolded cm]] h]
    Cons.IH [OF rest [unfolded cm] t]
  show ?case by simp
qed

lemma constants_bits:
  "foldE (resolveConstant cfg heapTable) cs (c0, m0) = Inr (c1, m1) \<Longrightarrow>
     m1 = m0 \<union> bitOf ` (\<Union>c \<in> set cs. set (snd c))"
proof (induction cs arbitrary: c0 m0)
  case Nil
  then show ?case by simp
next
  case (Cons c cs)
  from Cons.prems(1) obtain cm where
    step: "resolveConstant cfg heapTable c (c0, m0) = Inr cm"
    and rest: "foldE (resolveConstant cfg heapTable) cs cm = Inr (c1, m1)"
    by (auto simp: ebind_eq_Inr)
  obtain c' m' where cm: "cm = (c', m')" by (cases cm)
  from listeners_bits [OF resolveConstant_Inr(2) [OF step [unfolded cm]]]
    Cons.IH [OF rest [unfolded cm]]
  show ?case by auto
qed

lemma constants_value:
  assumes wf: "wf_config cfg"
    and r: "foldE (resolveConstant cfg heapTable) (cs1 @ (p, ls1 @ pl # ls2) # cs2) (c0, m0)
              = Inr (c1, m1)"
    and ap: "\<forall>pl' \<in> set ls2 \<union> (\<Union>c \<in> set cs2. set (snd c)). apart cfg pl pl'"
  shows "loadAt cfg (unat (TargetBytesPerWord cfg)) c1 (nat (location pl))
           = uint (heapTable p OR BootHeapOffset cfg OR (if flat pl then BootFlatConstant cfg else 0))"
proof -
  from r obtain cma cmb where
    a: "foldE (resolveConstant cfg heapTable) cs1 (c0, m0) = Inr cma"
    and b: "resolveConstant cfg heapTable (p, ls1 @ pl # ls2) cma = Inr cmb"
    and c: "foldE (resolveConstant cfg heapTable) cs2 cmb = Inr (c1, m1)"
    by (auto simp: foldE_append ebind_eq_Inr)
  obtain ca ma where cma: "cma = (ca, ma)" by (cases cma)
  obtain cb mb where cmb: "cmb = (cb, mb)" by (cases cmb)
  from resolveConstant_Inr(2) [OF b [unfolded cma cmb]]
  have ls: "foldE (resolveListener cfg (heapTable p)) (ls1 @ pl # ls2) (ca, ma) = Inr (cb, mb)"
    by simp
  from ap have ap2: "\<forall>pl' \<in> set ls2. apart cfg pl pl'" by simp
  from listeners_value [OF wf ls ap2] have nn: "location pl \<ge> 0"
    and v: "loadAt cfg (unat (TargetBytesPerWord cfg)) cb (nat (location pl))
           = uint (heapTable p OR BootHeapOffset cfg OR (if flat pl then BootFlatConstant cfg else 0))"
    by simp_all
  have "loadAt cfg (unat (TargetBytesPerWord cfg)) c1 (nat (location pl))
          = loadAt cfg (unat (TargetBytesPerWord cfg)) cb (nat (location pl))"
  proof (rule loadAt_cong)
    fix k
    assume k: "k < unat (TargetBytesPerWord cfg)"
    have "\<forall>c \<in> set cs2. \<forall>pl' \<in> set (snd c). clearOf cfg pl' (nat (location pl) + k)"
      using ap k nn by (auto intro!: apart_clear)
    from constants_frame [OF c [unfolded cmb] this]
    show "c1 (nat (location pl) + k) = cb (nat (location pl) + k)" .
  qed
  with v show ?thesis by simp
qed


lemma listeners_total:
  "\<forall>pl \<in> set ls. location pl \<ge> 0 \<Longrightarrow>
     \<exists>r. foldE (resolveListener cfg target) ls cm = Inr r"
proof (induction ls arbitrary: cm)
  case Nil
  then show ?case by simp
next
  case (Cons pl ls)
  then have "location pl \<ge> 0" by simp
  then obtain cm' where "resolveListener cfg target pl cm = Inr cm'"
    by (simp add: resolveListener_def Let_def)
  with Cons show ?case by simp
qed

lemma constants_total:
  "\<forall>c \<in> set cs. heapTable (fst c) > 0 \<and> (\<forall>pl \<in> set (snd c). location pl \<ge> 0) \<Longrightarrow>
     \<exists>r. foldE (resolveConstant cfg heapTable) cs cm = Inr r"
proof (induction cs arbitrary: cm)
  case Nil
  then show ?case by simp
next
  case (Cons c cs)
  then have "heapTable (fst c) > 0" "\<forall>pl \<in> set (snd c). location pl \<ge> 0" by simp_all
  with listeners_total [of "snd c" cfg "heapTable (fst c)" cm]
  obtain cm' where "resolveConstant cfg heapTable c cm = Inr cm'"
    by (auto simp: resolveConstant_def Let_def)
  with Cons show ?case by simp
qed

lemma constants_prefix:
  assumes "foldE (resolveConstant cfg heapTable) (cs1 @ (p, ls1 @ pl # ls2) # cs2) cm = Inr r"
  shows "\<exists>r'. foldE (resolveConstant cfg heapTable) (cs1 @ [(p, ls1 @ [pl])]) cm = Inr r'"
proof -
  from assms obtain cma cmb where
    a: "foldE (resolveConstant cfg heapTable) cs1 cm = Inr cma"
    and b: "resolveConstant cfg heapTable (p, ls1 @ pl # ls2) cma = Inr cmb"
    by (auto simp: foldE_append ebind_eq_Inr)
  from b have pos: "heapTable p > 0"
    and ls: "foldE (resolveListener cfg (heapTable p)) ((ls1 @ [pl]) @ ls2) cma = Inr cmb"
    by (auto simp: resolveConstant_def Let_def split: if_splits)
  from ls obtain r' where "foldE (resolveListener cfg (heapTable p)) (ls1 @ [pl]) cma = Inr r'"
    unfolding foldE_append [of _ "ls1 @ [pl]" ls2] by (auto simp: ebind_eq_Inr)
  with pos have "resolveConstant cfg heapTable (p, ls1 @ [pl]) cma = Inr r'"
    by (simp add: resolveConstant_def)
  with a show ?thesis by (simp add: foldE_append)
qed










text \<open>
  The two branches of \<open>visitNew\<close>: the header, the copy and the frame of the fixed branch,
  the copy of the plain branch, and the one word that the back-pointer patch changes.
\<close>

lemma memset_outside: "x < a \<or> a + n \<le> x \<Longrightarrow> memset m a v n x = m x"
  by (auto simp: memset_def)

lemma fixie_bytes:
  "wf_config cfg \<Longrightarrow>
     unat (TargetFixieSizeInBytes cfg)
       = unat (TargetFixieSizeInWords cfg) * unat (TargetBytesPerWord cfg)
     \<and> 16 \<le> unat (TargetFixieSizeInBytes cfg)"
  by (auto simp: wf_config_def TargetFixieSizeInWords_def TargetFixieSizeInBytes_def ceiling_def)

lemma fixie_body:
  assumes wf: "wf_config cfg"
    and r: "visitNew_fixed cfg vm typeMaps p sz v = Inr (number, v1)"
  defines "w \<equiv> unat (TargetBytesPerWord cfg)"
    and "base \<equiv> unat (position v) * unat (TargetBytesPerWord cfg)"
    and "body \<equiv> unat (position v) + unat (TargetFixieSizeInWords cfg)"
  shows "fixieHeaderAt cfg (heap v1) base sz
       \<and> (\<exists>h4 h5. (\<forall>a. a < base \<or> body * w \<le> a \<longrightarrow> h4 a = heap v a)
              \<and> (\<forall>a. a < body * w \<longrightarrow> h4 a = heap v1 a)
              \<and> copyObject cfg vm typeMaps p h4 (body * w) = Inr h5
              \<and> loadWord cfg (heap v1) body
                  = take_bit (8 * w) (loadWord cfg h5 body OR FixedMark cfg)
              \<and> (\<forall>a. (a < body * w \<or> body * w + w \<le> a)
                      \<and> (a < (body + unat sz) * w
                          \<or> (body + unat sz + unat (ceiling sz (TargetBytesPerWord cfg))) * w \<le> a)
                      \<longrightarrow> heap v1 a = h5 a))
       \<and> position v + (TargetFixieSizeInWords cfg + sz + ceiling sz (TargetBytesPerWord cfg))
           < capacity v"
proof -
  define h1 where "h1 = memset (heap v) base 0 (unat (TargetFixieSizeInBytes cfg))"
  define h2 where "h2 = store_bytes h1 (base + TargetFixieAge) [ucast (FixieTenureThreshold cfg + 1)]"
  define h3 where "h3 = store_bytes h2 (base + TargetFixieHasMask) [1]"
  define h4 where "h4 = storeAt cfg 4 h3 (base + TargetFixieSize) (TARGET_V cfg 4 (uint sz))"
  define ms where "ms = ceiling sz (TargetBytesPerWord cfg)"
  from r obtain h5 where
    h5: "copyObject cfg vm typeMaps p h4 (body * w) = Inr h5"
    and hv: "heap v1 = memset (storeWord cfg h5 body (loadWord cfg h5 body OR FixedMark cfg))
                         ((body + unat sz) * w) 0 (unat (ms * TargetBytesPerWord cfg))"
    and cap: "position v + (TargetFixieSizeInWords cfg + sz + ms) < capacity v"
    unfolding visitNew_fixed_def Let_def h1_def h2_def h3_def h4_def ms_def base_def body_def w_def
    by (auto simp: ebind_eq_Inr split: if_splits)
  define h6 where "h6 = storeWord cfg h5 body (loadWord cfg h5 body OR FixedMark cfg)"
  have bytes: "base + unat (TargetFixieSizeInBytes cfg) = body * w"
    and b16: "16 \<le> unat (TargetFixieSizeInBytes cfg)"
    using fixie_bytes [OF wf] by (simp_all add: base_def body_def w_def algebra_simps)
  have msw: "unat (ms * TargetBytesPerWord cfg) = unat ms * w"
    by (simp add: ms_def w_def ceiling_mult_no_wrap)
  have below: "heap v1 x = h4 x" if "x < body * w" for x
  proof -
    have "heap v1 x = h6 x"
      using that by (simp add: hv h6_def memset_below algebra_simps)
    also have "\<dots> = h5 x"
      using that by (simp add: h6_def storeWord_def storeAt_below w_def)
    also have "\<dots> = h4 x"
      using copyObject_below [OF h5 that] .
    finally show ?thesis .
  qed
  have outside: "h4 a = heap v a" if "a < base \<or> body * w \<le> a" for a
    using that bytes b16
    by (auto simp: h4_def h3_def h2_def h1_def storeAt_outside store_bytes_outside memset_outside
                   TargetFixieAge_def TargetFixieHasMask_def TargetFixieSize_def)
  have zero: "heap v1 a = 0"
    if "a \<in> {base + 2 ..< base + TargetFixieSize}
            \<union> {base + TargetFixieSize + 4 ..< base + unat (TargetFixieSizeInBytes cfg)}" for a
  proof -
    from that bytes b16 have "a < body * w" by (auto simp: TargetFixieSize_def)
    from below [OF this] that b16 show ?thesis
      by (auto simp: h4_def h3_def h2_def h1_def storeAt_outside store_bytes_outside memset_def
                     TargetFixieAge_def TargetFixieHasMask_def TargetFixieSize_def)
  qed
  from fixie_layout [OF wf r] size_field_reads [of "heap v1" base cfg sz]
  have hdr: "heap v1 (base + TargetFixieAge) = ucast (FixieTenureThreshold cfg + 1)"
    "heap v1 (base + TargetFixieHasMask) = 1" "fixieSizeField cfg (heap v1) base = uint sz"
    by (simp_all add: base_def)
  have header: "fixieHeaderAt cfg (heap v1) base sz"
    unfolding fixieHeaderAt_def using hdr zero by blast
  have "loadWord cfg (heap v1) body = loadWord cfg h6 body"
  proof (cases "sz = 0")
    case True
    then have "ms = 0" using ceiling_zero [OF wf] by (simp add: ms_def)
    then show ?thesis by (simp add: hv h6_def memset_empty)
  next
    case False
    then have "0 < unat sz" by (simp add: unat_gt_0)
    then have "body * w + w \<le> (body + unat sz) * w"
      by (simp add: algebra_simps)
    then show ?thesis
      unfolding loadWord_def
      by (intro loadAt_cong) (simp add: hv h6_def [symmetric] memset_below w_def)
  qed
  also have "\<dots> = take_bit (8 * w) (loadWord cfg h5 body OR FixedMark cfg)"
    by (simp add: h6_def loadWord_storeWord w_def)
  finally have mark: "loadWord cfg (heap v1) body
                  = take_bit (8 * w) (loadWord cfg h5 body OR FixedMark cfg)" .
  have rest: "heap v1 a = h5 a"
    if "(a < body * w \<or> body * w + w \<le> a)
        \<and> (a < (body + unat sz) * w \<or> (body + unat sz + unat ms) * w \<le> a)" for a
  proof -
    from that have "heap v1 a = h6 a"
      unfolding hv h6_def [symmetric] msw by (intro memset_outside) (auto simp: algebra_simps)
    also from that have "\<dots> = h5 a"
      unfolding h6_def storeWord_def w_def [symmetric] by (intro storeAt_outside) simp
    finally show ?thesis .
  qed
  from header below outside h5 mark rest cap show ?thesis
    unfolding ms_def by (intro conjI exI [of _ h4] exI [of _ h5]) simp_all
qed

lemma plain_body:
  assumes "visitNew_plain cfg vm typeMaps p sz v = Inr (number, v1)"
  shows "copyObject cfg vm typeMaps p (heap v)
           (unat (position v) * unat (TargetBytesPerWord cfg)) = Inr (heap v1)
       \<and> position v + sz < capacity v"
  using assms by (auto simp: visitNew_plain_def ebind_eq_Inr split: if_splits)

lemma visit_frame:
  assumes "visit cfg vm typeMaps number v = Inr v'"
  shows "(currentObject v = 0 \<longrightarrow> v' = v)
       \<and> (\<exists>slot. \<forall>a. a < slot * unat (TargetBytesPerWord cfg)
                       \<or> slot * unat (TargetBytesPerWord cfg) + unat (TargetBytesPerWord cfg) \<le> a
                     \<longrightarrow> heap v' a = heap v a)"
proof (cases "currentObject v = 0")
  case True
  with assms show ?thesis by (auto simp: visit_def)
next
  case False
  with assms obtain slot x where
    "heap v' = storeWord cfg (heap v) slot x"
    by (auto simp: visit_def ebind_eq_Inr Let_def)
  then have "\<forall>a. a < slot * unat (TargetBytesPerWord cfg)
                       \<or> slot * unat (TargetBytesPerWord cfg) + unat (TargetBytesPerWord cfg) \<le> a
                     \<longrightarrow> heap v' a = heap v a"
    by (simp add: storeWord_def storeAt_outside)
  with False show ?thesis by blast
qed


lemma vm_ex2_simps [simp]:
  "objectClass vm_ex2 = (\<lambda>p. if p = 20 \<or> p = 21 then 10 else if p = 40 then 3 else 1)"
  "instanceOf vm_ex2 = (\<lambda>c p. c = 3 \<and> p = 40)"
  "ClassType vm_ex2 = 1" "SingletonType vm_ex2 = 2" "SystemClassLoaderType vm_ex2 = 3"
  "objectBody vm_ex2 = (\<lambda>p a. if a = 8 then 7 else 0)"
  by (simp_all add: vm_ex2_def)

lemma typeMap_ex2 [simp]:
  "typeMap vm_ex2 typeMaps_ex2 20 = Inr map_ex2"
  "typeMap vm_ex2 typeMaps_ex2 21 = Inr map_ex2"
  "typeMap vm_ex2 typeMaps_ex2 40 = Inr map_ex2"
  by (simp_all add: typeMap_def typeMaps_ex2_def)

lemma targetSize_ex2: "targetSize cfg_ex vm_ex2 typeMaps_ex2 40 = Inr 3"
  by (simp add: targetSize_def) (simp add: map_ex2_def map_ex_def)

lemma isFixed_ex2: "isFixed cfg_ex vm_ex2 visitor_ex 40"
  by (simp add: isFixed_def)

lemma targetOffset_ex2: "targetOffset cfg_ex vm_ex2 typeMaps_ex2 20 8 = Inr 4"
  by (simp add: targetOffset_def) (simp add: map_ex2_def map_ex_def)

lemma host_word_ex2: "loadAt cfg_ex 8 (\<lambda>a. if a = 8 then 7 else 0) 8 = 7"
  by (simp add: loadAt_def load_bytes_def decode_def decodeLE_def upt_rec)

lemma copyObject_ex2:
  "\<exists>h'. copyObject cfg_ex vm_ex2 typeMaps_ex2 40 h d = Inr h'
        \<and> h' (d + 4) = 7 \<and> (\<forall>k < 4. h' (d + k) = 0)"
  "\<exists>h'. copyObject cfg_ex vm_ex2 typeMaps_ex2 21 h d = Inr h'
        \<and> h' (d + 4) = 7 \<and> (\<forall>k < 4. h' (d + k) = 0)"
  by (simp_all add: copyObject_def Let_def)
     (simp_all add: map_ex2_def map_ex_def copy_def host_word_ex2 TARGET_V_def storeAt_def
                store_bytes_def encode_def encodeLE_def memset_def)

lemma visit_ex2:
  "currentObject v = 20 \<Longrightarrow> currentOffset v = 1 \<Longrightarrow>
   \<exists>v'. visit cfg_ex vm_ex2 typeMaps_ex2 n v = Inr v'"
  by (simp add: visit_def targetOffset_ex2 Let_def)

lemma visitNew_ex2: "\<exists>v'. visitNew cfg_ex vm_ex2 typeMaps_ex2 40 visitor_ex = Inr (8, v')"
proof -
  obtain h5 where h5: "copyObject cfg_ex vm_ex2 typeMaps_ex2 40
       (storeAt cfg_ex 4
         (store_bytes (store_bytes (memset (\<lambda>a. 0) 12 0 16) 12 [4]) 13 [1]) 16
           (TARGET_V cfg_ex 4 3)) 28 = Inr h5"
    using copyObject_ex2(1) by blast
  obtain v1 where fixed: "visitNew_fixed cfg_ex vm_ex2 typeMaps_ex2 40 3 visitor_ex = Inr (8, v1)"
    and c: "currentObject v1 = 20" "currentOffset v1 = 1"
    by (simp add: visitNew_fixed_def fixie_ex ceiling_def Let_def h5
                  TargetFixieAge_def TargetFixieHasMask_def TargetFixieSize_def)
  obtain v' where v': "visit cfg_ex vm_ex2 typeMaps_ex2 8 v1 = Inr v'"
    using visit_ex2 [OF c] by auto
  show ?thesis
    by (simp add: visitNew_def targetSize_ex2 isFixed_ex2 fixed v')
qed

lemma targetSize_ex2p: "targetSize cfg_ex vm_ex2 typeMaps_ex2 21 = Inr 3"
  by (simp add: targetSize_def) (simp add: map_ex2_def map_ex_def)

lemma isFixed_ex2p: "\<not> isFixed cfg_ex vm_ex2 visitor_ex 21"
  by (simp add: isFixed_def)

lemma visitNew_ex2p: "\<exists>v'. visitNew cfg_ex vm_ex2 typeMaps_ex2 21 visitor_ex = Inr (4, v')"
proof -
  obtain h' where h': "copyObject cfg_ex vm_ex2 typeMaps_ex2 21 (\<lambda>a. 0) 12 = Inr h'"
    using copyObject_ex2(2) by blast
  have plain: "visitNew_plain cfg_ex vm_ex2 typeMaps_ex2 21 3 visitor_ex
                 = Inr (4, visitor_ex\<lparr>heap := h', position := 6\<rparr>)"
    by (simp add: visitNew_plain_def h')
  obtain v' where
    v': "visit cfg_ex vm_ex2 typeMaps_ex2 4 (visitor_ex\<lparr>heap := h', position := 6\<rparr>) = Inr v'"
    using visit_ex2 [of "visitor_ex\<lparr>heap := h', position := 6\<rparr>" 4] by auto
  show ?thesis
    by (simp add: visitNew_def targetSize_ex2p isFixed_ex2p plain v')
qed

section \<open>Size of an object in the image\<close>

text \<open>
  C4. For an object \<open>p\<close> whose type map is \<open>m\<close>: when \<open>m\<close> has a trailing array (its target
  element size is not 0), \<open>targetSize\<close> is \<open>targetFixedSizeInWords\<close> plus
  \<open>ceiling (element size * length) TargetBytesPerWord\<close>, the length being the host word
  of \<open>p\<close> at byte offset \<open>(buildFixedSizeInWords - 1) * BytesPerWord\<close>; otherwise it is
  \<open>targetFixedSizeInWords\<close> for a normal object, with the singleton mask added for a
  singleton, and with the pool mask and the singleton mask over both added for a pool.
  All sums and products are those of \<open>unsigned\<close>.
\<close>

theorem targetSize_cases:
  assumes "typeMap vm typeMaps p = Inr m"
  shows "(targetArrayElementSizeInBytes m \<noteq> 0 \<longrightarrow>
           targetSize cfg vm typeMaps p =
             Inr (targetFixedSizeInWords m
                  + ceiling (targetArrayElementSizeInBytes m
                             * word_of_int (cast_uintptr cfg (objectBody vm p)
                                 (unat ((buildFixedSizeInWords m - 1) * BytesPerWord cfg))))
                      (TargetBytesPerWord cfg)))
       \<and> (targetArrayElementSizeInBytes m = 0 \<and> kind m = NormalKind \<longrightarrow>
           targetSize cfg vm typeMaps p = Inr (targetFixedSizeInWords m))
       \<and> (targetArrayElementSizeInBytes m = 0 \<and> kind m = SingletonKind \<longrightarrow>
           targetSize cfg vm typeMaps p =
             Inr (targetFixedSizeInWords m
                  + singletonMaskSize cfg (targetFixedSizeInWords m - 2) (TargetBitsPerWord cfg)))
       \<and> (targetArrayElementSizeInBytes m = 0 \<and> kind m = PoolKind \<longrightarrow>
           targetSize cfg vm typeMaps p =
             Inr (targetFixedSizeInWords m
                  + poolMaskSize cfg (targetFixedSizeInWords m - 2) (TargetBitsPerWord cfg)
                  + singletonMaskSize cfg
                      (targetFixedSizeInWords m - 2
                       + poolMaskSize cfg (targetFixedSizeInWords m - 2) (TargetBitsPerWord cfg))
                      (TargetBitsPerWord cfg)))"
  using assms by (simp add: targetSize_def Let_def word_of_int_uint)

theorem targetSize_cases_witness:
  "typeMap vm_ex typeMaps_ex 21 = Inr map_ex
   \<and> targetArrayElementSizeInBytes map_ex = 0 \<and> kind map_ex = NormalKind
   \<and> targetSize cfg_ex vm_ex typeMaps_ex 21 = Inr 3"
  using targetSize_cases [OF typeMap_ex(2), of cfg_ex] by (simp add: map_ex_def)

section \<open>Emission of a plain object\<close>

text \<open>
  C9. For a non-null object that is not to be fixed and has target size \<open>sz\<close>: whenever
  \<open>visitNew\<close> returns, \<open>position + sz < capacity\<close> held, the number returned is
  \<open>position + 1\<close> and the position has advanced by exactly \<open>sz\<close>; and when
  \<open>position + sz < capacity\<close> fails, \<open>visitNew\<close> aborts with \<open>CapacityExceeded\<close>.
\<close>

theorem plain_emission:
  assumes "p \<noteq> 0" and "\<not> isFixed cfg vm v p"
    and "targetSize cfg vm typeMaps p = Inr sz"
  shows "(\<forall>number v'. visitNew cfg vm typeMaps p v = Inr (number, v') \<longrightarrow>
            position v + sz < capacity v \<and> number = position v + 1
            \<and> position v' = position v + sz)
       \<and> (\<not> position v + sz < capacity v \<longrightarrow>
            visitNew cfg vm typeMaps p v = Inl CapacityExceeded)"
  using assms
  by (auto simp: visitNew_def visitNew_plain_def ebind_eq_Inr split: if_splits
           dest: visit_position)

theorem plain_emission_witness:
  "21 \<noteq> (0 :: object) \<and> \<not> isFixed cfg_ex vm_ex visitor_ex 21
   \<and> targetSize cfg_ex vm_ex typeMaps_ex 21 = Inr 3
   \<and> (\<exists>v'. visitNew cfg_ex vm_ex typeMaps_ex 21 visitor_ex = Inr (4, v')
            \<and> position visitor_ex + 3 < capacity visitor_ex
            \<and> position v' = position visitor_ex + 3)"
proof -
  obtain v' where v': "visitNew cfg_ex vm_ex typeMaps_ex 21 visitor_ex = Inr (4, v')"
    using visitNew_ex21 by blast
  have "21 \<noteq> (0 :: object)" by simp
  from plain_emission [OF this isFixed_ex21 targetSize_ex21] v'
  show ?thesis by (auto simp: isFixed_ex21 targetSize_ex21)
qed

section \<open>Fixed and plain objects\<close>

text \<open>
  C1. For a non-null object \<open>p\<close> that \<open>visitNew\<close> emits: it is emitted as a fixed object if
  and only if the current edge comes from a class object at build offset
  \<open>ClassStaticTable\<close> or \<open>p\<close> is an instance of the system class loader type, and as a plain
  object in every other case. Emitted as a fixed object: a fixie header stands at the
  old position; the heap with that header (\<open>h4\<close>, elsewhere the heap as it was) has been
  handed to the transcoder, which has copied \<open>p\<close> to the address after the header (\<open>h5\<close>);
  \<open>FixedMark\<close> has been ORed into the first word of the copy and the mask words after
  the body are 0, the heap being \<open>h5\<close> everywhere else; the number points past the header
  of \<open>TargetFixieSizeInWords\<close> words; and the position has advanced over header, body and
  mask, staying below the capacity. Emitted as a plain object: the heap is what the
  transcoder makes of the old heap by copying \<open>p\<close> to the old position, the number is
  \<open>position + 1\<close> and the position has advanced by the size alone. The heap \<open>heap v1\<close> so
  described is the one handed to the final back-pointer patch, which changes one target
  word at most, and nothing when the visitor stands at a root.
\<close>

theorem fixed_classification:
  assumes "wf_config cfg" and "p \<noteq> 0"
    and "visitNew cfg vm typeMaps p v = Inr (number, v')"
  shows "(number = position v + TargetFixieSizeInWords cfg + 1 \<longleftrightarrow>
            (currentObject v \<noteq> 0
             \<and> objectClass vm (currentObject v) = ClassType vm
             \<and> currentOffset v * BytesPerWord cfg = ClassStaticTable cfg)
            \<or> instanceOf vm (SystemClassLoaderType vm) p)
       \<and> (number = position v + 1 \<longleftrightarrow>
            \<not> ((currentObject v \<noteq> 0
                 \<and> objectClass vm (currentObject v) = ClassType vm
                 \<and> currentOffset v * BytesPerWord cfg = ClassStaticTable cfg)
                \<or> instanceOf vm (SystemClassLoaderType vm) p))
       \<and> (\<exists>sz. targetSize cfg vm typeMaps p = Inr sz
               \<and> position v' =
                   (if number = position v + 1 then position v + sz
                    else position v + (TargetFixieSizeInWords cfg + sz
                                       + ceiling sz (TargetBytesPerWord cfg))))
       \<and> (\<exists>sz v1.
             targetSize cfg vm typeMaps p = Inr sz
           \<and> visit cfg vm typeMaps number v1 = Inr v'
           \<and> (currentObject v = 0 \<longrightarrow> v' = v1)
           \<and> (\<exists>slot. \<forall>a. a < slot * unat (TargetBytesPerWord cfg)
                           \<or> slot * unat (TargetBytesPerWord cfg)
                              + unat (TargetBytesPerWord cfg) \<le> a
                         \<longrightarrow> heap v' a = heap v1 a)
           \<and> (isFixed cfg vm v p \<longrightarrow>
                fixieHeaderAt cfg (heap v1) (unat (position v) * unat (TargetBytesPerWord cfg)) sz
                \<and> (\<exists>h4 h5.
                      (\<forall>a. a < unat (position v) * unat (TargetBytesPerWord cfg)
                            \<or> (unat (position v) + unat (TargetFixieSizeInWords cfg))
                               * unat (TargetBytesPerWord cfg) \<le> a
                          \<longrightarrow> h4 a = heap v a)
                    \<and> (\<forall>a. a < (unat (position v) + unat (TargetFixieSizeInWords cfg))
                                * unat (TargetBytesPerWord cfg)
                          \<longrightarrow> h4 a = heap v1 a)
                    \<and> copyObject cfg vm typeMaps p h4
                          ((unat (position v) + unat (TargetFixieSizeInWords cfg))
                           * unat (TargetBytesPerWord cfg)) = Inr h5
                    \<and> loadWord cfg (heap v1) (unat (position v) + unat (TargetFixieSizeInWords cfg))
                        = take_bit (8 * unat (TargetBytesPerWord cfg))
                            (loadWord cfg h5 (unat (position v) + unat (TargetFixieSizeInWords cfg))
                             OR FixedMark cfg)
                    \<and> (\<forall>a. (a < (unat (position v) + unat (TargetFixieSizeInWords cfg))
                                 * unat (TargetBytesPerWord cfg)
                             \<or> (unat (position v) + unat (TargetFixieSizeInWords cfg))
                                 * unat (TargetBytesPerWord cfg)
                                + unat (TargetBytesPerWord cfg) \<le> a)
                          \<and> (a < (unat (position v) + unat (TargetFixieSizeInWords cfg) + unat sz)
                                  * unat (TargetBytesPerWord cfg)
                              \<or> (unat (position v) + unat (TargetFixieSizeInWords cfg) + unat sz
                                  + unat (ceiling sz (TargetBytesPerWord cfg)))
                                 * unat (TargetBytesPerWord cfg) \<le> a)
                          \<longrightarrow> heap v1 a = h5 a))
                \<and> (\<forall>j < unat (ceiling sz (TargetBytesPerWord cfg)).
                      loadWord cfg (heap v1)
                        (unat (position v) + unat (TargetFixieSizeInWords cfg) + unat sz + j) = 0)
                \<and> position v + (TargetFixieSizeInWords cfg + sz
                                 + ceiling sz (TargetBytesPerWord cfg)) < capacity v)
           \<and> (\<not> isFixed cfg vm v p \<longrightarrow>
                copyObject cfg vm typeMaps p (heap v)
                  (unat (position v) * unat (TargetBytesPerWord cfg)) = Inr (heap v1)
                \<and> position v + sz < capacity v))"
proof -
  from assms(2,3) obtain sz v1 where
    sz: "targetSize cfg vm typeMaps p = Inr sz"
    and emit: "(if isFixed cfg vm v p then visitNew_fixed cfg vm typeMaps p sz v
                else visitNew_plain cfg vm typeMaps p sz v) = Inr (number, v1)"
    and vis: "visit cfg vm typeMaps number v1 = Inr v'"
    by (rule visitNew_split)
  have pos: "position v' = position v1" using vis by (rule visit_position)
  have nz: "TargetFixieSizeInWords cfg \<noteq> 0" using assms(1) by (rule fixie_words_nonzero)
  have cur: "currentObject v1 = currentObject v"
    using emit visitNew_fixed_result [of cfg vm typeMaps p sz v number v1]
      visitNew_plain_result [of cfg vm typeMaps p sz v number v1]
    by (auto split: if_splits)
  from visit_frame [OF vis] cur
  have frame: "(currentObject v = 0 \<longrightarrow> v' = v1)
       \<and> (\<exists>slot. \<forall>a. a < slot * unat (TargetBytesPerWord cfg)
                       \<or> slot * unat (TargetBytesPerWord cfg) + unat (TargetBytesPerWord cfg) \<le> a
                     \<longrightarrow> heap v' a = heap v1 a)"
    by simp
  show ?thesis
  proof (cases "isFixed cfg vm v p")
    case True
    with emit have f: "visitNew_fixed cfg vm typeMaps p sz v = Inr (number, v1)" by simp
    have old: "(number = position v + TargetFixieSizeInWords cfg + 1 \<longleftrightarrow>
            (currentObject v \<noteq> 0
             \<and> objectClass vm (currentObject v) = ClassType vm
             \<and> currentOffset v * BytesPerWord cfg = ClassStaticTable cfg)
            \<or> instanceOf vm (SystemClassLoaderType vm) p)
       \<and> (number = position v + 1 \<longleftrightarrow>
            \<not> ((currentObject v \<noteq> 0
                 \<and> objectClass vm (currentObject v) = ClassType vm
                 \<and> currentOffset v * BytesPerWord cfg = ClassStaticTable cfg)
                \<or> instanceOf vm (SystemClassLoaderType vm) p))
       \<and> (\<exists>sz. targetSize cfg vm typeMaps p = Inr sz
               \<and> position v' =
                   (if number = position v + 1 then position v + sz
                    else position v + (TargetFixieSizeInWords cfg + sz
                                       + ceiling sz (TargetBytesPerWord cfg))))"
      using visitNew_fixed_result [OF f] True sz pos nz unfolding isFixed_def by auto
    have zeros: "\<forall>j < unat (ceiling sz (TargetBytesPerWord cfg)).
                      loadWord cfg (heap v1)
                        (unat (position v) + unat (TargetFixieSizeInWords cfg) + unat sz + j) = 0"
      using fixie_layout [OF assms(1) f] by simp
    from old sz vis frame True fixie_body [OF assms(1) f] zeros show ?thesis
      by (intro conjI exI [of _ sz] exI [of _ v1]) simp_all
  next
    case False
    with emit have f: "visitNew_plain cfg vm typeMaps p sz v = Inr (number, v1)" by simp
    have old: "(number = position v + TargetFixieSizeInWords cfg + 1 \<longleftrightarrow>
            (currentObject v \<noteq> 0
             \<and> objectClass vm (currentObject v) = ClassType vm
             \<and> currentOffset v * BytesPerWord cfg = ClassStaticTable cfg)
            \<or> instanceOf vm (SystemClassLoaderType vm) p)
       \<and> (number = position v + 1 \<longleftrightarrow>
            \<not> ((currentObject v \<noteq> 0
                 \<and> objectClass vm (currentObject v) = ClassType vm
                 \<and> currentOffset v * BytesPerWord cfg = ClassStaticTable cfg)
                \<or> instanceOf vm (SystemClassLoaderType vm) p))
       \<and> (\<exists>sz. targetSize cfg vm typeMaps p = Inr sz
               \<and> position v' =
                   (if number = position v + 1 then position v + sz
                    else position v + (TargetFixieSizeInWords cfg + sz
                                       + ceiling sz (TargetBytesPerWord cfg))))"
      using visitNew_plain_result [OF f] False sz pos nz unfolding isFixed_def by auto
    from old sz vis frame False plain_body [OF f] show ?thesis
      by (intro conjI exI [of _ sz] exI [of _ v1]) simp_all
  qed
qed

theorem fixed_classification_witness:
  "wf_config cfg_ex \<and> 40 \<noteq> (0 :: object) \<and> 21 \<noteq> (0 :: object)
   \<and> instanceOf vm_ex2 (SystemClassLoaderType vm_ex2) 40
   \<and> \<not> instanceOf vm_ex2 (SystemClassLoaderType vm_ex2) 21
   \<and> (\<exists>v' v1. visitNew cfg_ex vm_ex2 typeMaps_ex2 40 visitor_ex = Inr (8, v')
          \<and> visit cfg_ex vm_ex2 typeMaps_ex2 8 v1 = Inr v'
          \<and> 8 = position visitor_ex + TargetFixieSizeInWords cfg_ex + 1
          \<and> heap v1 12 = 4 \<and> heap v1 13 = 1 \<and> fixieSizeField cfg_ex (heap v1) 12 = 3
          \<and> loadWord cfg_ex (heap v1) 7 = 3
          \<and> heap v1 32 = 7
          \<and> position v' = 11)
   \<and> (\<exists>v' v1. visitNew cfg_ex vm_ex2 typeMaps_ex2 21 visitor_ex = Inr (4, v')
          \<and> visit cfg_ex vm_ex2 typeMaps_ex2 4 v1 = Inr v'
          \<and> 4 = position visitor_ex + 1
          \<and> heap v1 16 = 7
          \<and> position v' = 6)"
proof -
  have p: "40 \<noteq> (0 :: object)" and q: "21 \<noteq> (0 :: object)" by simp_all
  obtain v' where v': "visitNew cfg_ex vm_ex2 typeMaps_ex2 40 visitor_ex = Inr (8, v')"
    using visitNew_ex2 by blast
  from fixed_classification [OF wf_cfg_ex p v'] obtain v1 h4 h5 where
    vis: "visit cfg_ex vm_ex2 typeMaps_ex2 8 v1 = Inr v'"
    and pos: "position v' = 11"
    and hdr: "fixieHeaderAt cfg_ex (heap v1) 12 3"
    and h5: "copyObject cfg_ex vm_ex2 typeMaps_ex2 40 h4 28 = Inr h5"
    and mark: "loadWord cfg_ex (heap v1) 7 = take_bit 32 (loadWord cfg_ex h5 7 OR 3)"
    and rest: "\<forall>a. (a < 28 \<or> 32 \<le> a) \<and> (a < 40 \<or> 44 \<le> a) \<longrightarrow> heap v1 a = h5 a"
    by (auto simp: targetSize_ex2 isFixed_ex2 fixie_ex ceiling_def)
  from copyObject_ex2(1) [of h4 28] h5 have b: "h5 32 = 7" "\<forall>k < 4. h5 (28 + k) = 0"
    by auto
  from b(2) have "loadWord cfg_ex h5 7 = 0"
    unfolding loadWord_def by (intro loadAt_zero) simp
  with mark have m: "loadWord cfg_ex (heap v1) 7 = 3" by simp
  from rest b(1) have r: "heap v1 32 = 7" by simp
  from hdr have h: "heap v1 12 = 4" "heap v1 13 = 1" "fixieSizeField cfg_ex (heap v1) 12 = 3"
    by (simp_all add: fixieHeaderAt_def TargetFixieAge_def TargetFixieHasMask_def)
  have n: "8 = position visitor_ex + TargetFixieSizeInWords cfg_ex + 1"
    by (simp add: fixie_ex)
  obtain u' where u': "visitNew cfg_ex vm_ex2 typeMaps_ex2 21 visitor_ex = Inr (4, u')"
    using visitNew_ex2p by blast
  from fixed_classification [OF wf_cfg_ex q u'] obtain u1 where
    vis2: "visit cfg_ex vm_ex2 typeMaps_ex2 4 u1 = Inr u'"
    and pos2: "position u' = 6"
    and cp: "copyObject cfg_ex vm_ex2 typeMaps_ex2 21 (\<lambda>a. 0) 12 = Inr (heap u1)"
    by (auto simp: targetSize_ex2p isFixed_ex2p)
  from copyObject_ex2(2) [of "\<lambda>a. 0" 12] cp have r2: "heap u1 16 = 7" by auto
  from v' vis pos h m r n u' vis2 pos2 r2 wf_cfg_ex show ?thesis by auto
qed

section \<open>Back-pointer patching\<close>

text \<open>
  C3. Whenever the walker reports an edge from \<open>(currentObject, currentOffset)\<close> to an
  object numbered \<open>number\<close>, through \<open>visitOld\<close> or at the end of \<open>visitNew\<close>, the slot
  patched is \<open>currentNumber - 1 + targetOffset(currentObject, currentOffset * BytesPerWord)
  / TargetBytesPerWord\<close>, the value stored there is
  \<open>number | ((heap[slot] & ~PointerMask) << BootShift)\<close>, and the bit of the slot is marked
  in the heap bitmap exactly when that value is not 0 (a bit marked before stays marked).
\<close>

theorem back_pointer_patch:
  assumes "wf_config cfg" and "currentObject v \<noteq> 0"
  shows "(visitOld cfg vm typeMaps p number v = Inr v' \<longrightarrow>
            backPatched cfg vm typeMaps number v v')
       \<and> (p \<noteq> 0 \<and> visitNew cfg vm typeMaps p v = Inr (number, v') \<longrightarrow>
            (\<exists>sz v1. targetSize cfg vm typeMaps p = Inr sz
                \<and> (if isFixed cfg vm v p then visitNew_fixed cfg vm typeMaps p sz v
                    else visitNew_plain cfg vm typeMaps p sz v) = Inr (number, v1)
                \<and> currentObject v1 = currentObject v \<and> currentNumber v1 = currentNumber v
                \<and> currentOffset v1 = currentOffset v
                \<and> backPatched cfg vm typeMaps number v1 v'))"
proof (intro conjI impI)
  assume "visitOld cfg vm typeMaps p number v = Inr v'"
  then show "backPatched cfg vm typeMaps number v v'"
    using assms by (simp add: visitOld_def visit_backPatched)
next
  assume a: "p \<noteq> 0 \<and> visitNew cfg vm typeMaps p v = Inr (number, v')"
  then have p: "p \<noteq> 0" and vn: "visitNew cfg vm typeMaps p v = Inr (number, v')"
    by simp_all
  from p vn obtain sz v1 where
    sz: "targetSize cfg vm typeMaps p = Inr sz"
    and emit: "(if isFixed cfg vm v p then visitNew_fixed cfg vm typeMaps p sz v
                else visitNew_plain cfg vm typeMaps p sz v) = Inr (number, v1)"
    and vis: "visit cfg vm typeMaps number v1 = Inr v'"
    by (rule visitNew_split)
  have same: "currentObject v1 = currentObject v \<and> currentNumber v1 = currentNumber v
              \<and> currentOffset v1 = currentOffset v"
    using emit visitNew_fixed_result [of cfg vm typeMaps p sz v number v1]
      visitNew_plain_result [of cfg vm typeMaps p sz v number v1]
    by (auto split: if_splits)
  with assms(2) have "currentObject v1 \<noteq> 0" by simp
  from visit_backPatched [OF assms(1) this vis] sz emit same
  show "\<exists>sz v1. targetSize cfg vm typeMaps p = Inr sz
                \<and> (if isFixed cfg vm v p then visitNew_fixed cfg vm typeMaps p sz v
                    else visitNew_plain cfg vm typeMaps p sz v) = Inr (number, v1)
                \<and> currentObject v1 = currentObject v \<and> currentNumber v1 = currentNumber v
                \<and> currentOffset v1 = currentOffset v
                \<and> backPatched cfg vm typeMaps number v1 v'"
    by blast
qed

theorem back_pointer_patch_witness:
  "wf_config cfg_ex \<and> currentObject visitor_ex \<noteq> 0
   \<and> (\<exists>v'. visitOld cfg_ex vm_ex typeMaps_ex 21 7 visitor_ex = Inr v'
          \<and> bitmap v' = {1}
          \<and> backPatched cfg_ex vm_ex typeMaps_ex 7 visitor_ex v')"
proof -
  obtain v' where v': "visitOld cfg_ex vm_ex typeMaps_ex 21 7 visitor_ex = Inr v'"
    and b: "bitmap v' = {1}"
    using visitOld_ex by blast
  have c: "currentObject visitor_ex \<noteq> 0" by simp
  from back_pointer_patch [OF wf_cfg_ex c, of vm_ex typeMaps_ex 21 7 v'] v' b c wf_cfg_ex
  show ?thesis by blast
qed

section \<open>The heap size in the image header\<close>




section \<open>The heap-constant pass\<close>

text \<open>
  C8. When \<open>updateConstants\<close> returns, the number found in the heap walker's map for every
  constant was greater than 0; a constant whose lookup gives 0 is fatal
  (\<open>InvariantViolation\<close>), and the pass does return when every lookup is positive and no
  listener's location lies before the code. For every listener \<open>pl\<close> chained off a
  constant \<open>p\<close>: once the pass has dealt with \<open>pl\<close>, the target word at its location is
  \<open>heapTable(p) | BootHeapOffset\<close>, ORed with \<open>BootFlatConstant\<close> when \<open>pl\<close> reports a flat
  immediate, and the bit of the location is marked; the word is still there when the
  pass returns, unless a later listener has written over it. The code bitmap gains the
  bits of the listeners' locations and no other, and the code changes in the target
  words at those locations only. The last part is the same fact for one call of the
  loop body.
\<close>

theorem heap_constant_pass:
  assumes "wf_config cfg"
  shows "(updateConstants cfg constants code codeMap heapTable = Inr (code', codeMap') \<longrightarrow>
            (\<forall>c \<in> set constants. heapTable (fst c) > 0
               \<and> (\<forall>pl \<in> set (snd c).
                      unat (word_of_int (location pl) :: unsigned) \<in> codeMap'))
            \<and> codeMap' = codeMap \<union> (\<lambda>pl. unat (word_of_int (location pl) :: unsigned))
                                      ` (\<Union>c \<in> set constants. set (snd c))
            \<and> (\<forall>a. (\<forall>c \<in> set constants. \<forall>pl \<in> set (snd c). clearOf cfg pl a)
                     \<longrightarrow> code' a = code a)
            \<and> (\<forall>cs1 p ls1 pl ls2 cs2.
                  constants = cs1 @ (p, ls1 @ pl # ls2) # cs2 \<longrightarrow>
                  (\<exists>c1 m1. updateConstants cfg (cs1 @ [(p, ls1 @ [pl])]) code codeMap heapTable
                              = Inr (c1, m1)
                     \<and> loadAt cfg (unat (TargetBytesPerWord cfg)) c1 (nat (location pl))
                         = uint (heapTable p OR BootHeapOffset cfg
                                 OR (if flat pl then BootFlatConstant cfg else 0))
                     \<and> unat (word_of_int (location pl) :: unsigned) \<in> m1)
                  \<and> ((\<forall>pl' \<in> set ls2 \<union> (\<Union>c \<in> set cs2. set (snd c)). apart cfg pl pl') \<longrightarrow>
                       loadAt cfg (unat (TargetBytesPerWord cfg)) code' (nat (location pl))
                         = uint (heapTable p OR BootHeapOffset cfg
                                 OR (if flat pl then BootFlatConstant cfg else 0)))))
       \<and> ((\<exists>c \<in> set constants. heapTable (fst c) = 0) \<longrightarrow>
            updateConstants cfg constants code codeMap heapTable = Inl InvariantViolation)
       \<and> ((\<forall>c \<in> set constants. heapTable (fst c) > 0 \<and> (\<forall>pl \<in> set (snd c). location pl \<ge> 0)) \<longrightarrow>
            (\<exists>r. updateConstants cfg constants code codeMap heapTable = Inr r))
       \<and> (resolveListener cfg target pl0 (c0, m0) = Inr (c1, m1) \<longrightarrow>
            loadAt cfg (unat (TargetBytesPerWord cfg)) c1 (nat (location pl0))
              = uint (target OR BootHeapOffset cfg
                      OR (if flat pl0 then BootFlatConstant cfg else 0))
            \<and> m1 = insert (unat (word_of_int (location pl0) :: unsigned)) m0)"
proof (intro conjI impI allI)
  assume ok: "updateConstants cfg constants code codeMap heapTable = Inr (code', codeMap')"
  then show "\<forall>c \<in> set constants. heapTable (fst c) > 0
               \<and> (\<forall>pl \<in> set (snd c).
                      unat (word_of_int (location pl) :: unsigned) \<in> codeMap')"
    using constants_marked [of cfg heapTable constants code codeMap code' codeMap']
    by (simp add: updateConstants_fold)
  from ok show "codeMap' = codeMap \<union> (\<lambda>pl. unat (word_of_int (location pl) :: unsigned))
                                      ` (\<Union>c \<in> set constants. set (snd c))"
    using constants_bits [of cfg heapTable constants code codeMap code' codeMap']
    by (simp add: updateConstants_fold bitOf_def [abs_def])
next
  fix a
  assume ok: "updateConstants cfg constants code codeMap heapTable = Inr (code', codeMap')"
    and cl: "\<forall>c \<in> set constants. \<forall>pl \<in> set (snd c). clearOf cfg pl a"
  from constants_frame [OF ok [unfolded updateConstants_fold] cl]
  show "code' a = code a" .
next
  fix cs1 p ls1 pl ls2 cs2
  assume ok: "updateConstants cfg constants code codeMap heapTable = Inr (code', codeMap')"
    and sp: "constants = cs1 @ (p, ls1 @ pl # ls2) # cs2"
  from ok sp have full: "foldE (resolveConstant cfg heapTable) (cs1 @ (p, ls1 @ pl # ls2) # cs2)
                           (code, codeMap) = Inr (code', codeMap')"
    by (simp add: updateConstants_fold)
  from constants_prefix [OF full] obtain c1 m1 where
    pre: "foldE (resolveConstant cfg heapTable) (cs1 @ (p, ls1 @ pl # []) # []) (code, codeMap)
            = Inr (c1, m1)"
    by auto
  have "loadAt cfg (unat (TargetBytesPerWord cfg)) c1 (nat (location pl))
          = uint (heapTable p OR BootHeapOffset cfg
                  OR (if flat pl then BootFlatConstant cfg else 0))"
    by (rule constants_value [OF assms pre]) simp
  moreover have "unat (word_of_int (location pl) :: unsigned) \<in> m1"
    using constants_bits [OF pre] by (simp add: bitOf_def)
  ultimately show "\<exists>c1 m1. updateConstants cfg (cs1 @ [(p, ls1 @ [pl])]) code codeMap heapTable
                              = Inr (c1, m1)
                     \<and> loadAt cfg (unat (TargetBytesPerWord cfg)) c1 (nat (location pl))
                         = uint (heapTable p OR BootHeapOffset cfg
                                 OR (if flat pl then BootFlatConstant cfg else 0))
                     \<and> unat (word_of_int (location pl) :: unsigned) \<in> m1"
    using pre by (auto simp: updateConstants_fold)
next
  fix cs1 p ls1 pl ls2 cs2
  assume ok: "updateConstants cfg constants code codeMap heapTable = Inr (code', codeMap')"
    and sp: "constants = cs1 @ (p, ls1 @ pl # ls2) # cs2"
    and ap: "\<forall>pl' \<in> set ls2 \<union> (\<Union>c \<in> set cs2. set (snd c)). apart cfg pl pl'"
  from ok sp have full: "foldE (resolveConstant cfg heapTable) (cs1 @ (p, ls1 @ pl # ls2) # cs2)
                           (code, codeMap) = Inr (code', codeMap')"
    by (simp add: updateConstants_fold)
  from constants_value [OF assms full ap]
  show "loadAt cfg (unat (TargetBytesPerWord cfg)) code' (nat (location pl))
          = uint (heapTable p OR BootHeapOffset cfg
                  OR (if flat pl then BootFlatConstant cfg else 0))" .
next
  assume z: "\<exists>c \<in> set constants. heapTable (fst c) = 0"
  show "updateConstants cfg constants code codeMap heapTable = Inl InvariantViolation"
  proof (cases "updateConstants cfg constants code codeMap heapTable")
    case (Inl e)
    then show ?thesis using constants_Inl [of cfg heapTable constants "(code, codeMap)" e]
      by (simp add: updateConstants_fold)
  next
    case (Inr r)
    obtain c m where "r = (c, m)" by (cases r)
    with Inr constants_marked [of cfg heapTable constants code codeMap c m] z
    show ?thesis by (auto simp: updateConstants_fold)
  qed
next
  assume "\<forall>c \<in> set constants. heapTable (fst c) > 0 \<and> (\<forall>pl \<in> set (snd c). location pl \<ge> 0)"
  from constants_total [OF this]
  show "\<exists>r. updateConstants cfg constants code codeMap heapTable = Inr r"
    by (simp add: updateConstants_fold)
next
  assume r: "resolveListener cfg target pl0 (c0, m0) = Inr (c1, m1)"
  from resolveListener_Inr [OF r]
  show "loadAt cfg (unat (TargetBytesPerWord cfg)) c1 (nat (location pl0))
              = uint (target OR BootHeapOffset cfg
                      OR (if flat pl0 then BootFlatConstant cfg else 0))"
    by (simp add: loadAt_storeAt take_bit_target_word [OF assms])
  from resolveListener_Inr [OF r]
  show "m1 = insert (unat (word_of_int (location pl0) :: unsigned)) m0" by simp
qed

theorem heap_constant_pass_witness:
  "wf_config cfg_ex
   \<and> (\<exists>code' codeMap'.
         updateConstants cfg_ex
           [(21, [\<lparr>location = 8, flat = True\<rparr>]), (40, [\<lparr>location = 16, flat = False\<rparr>])]
           (\<lambda>a. 0) {} (\<lambda>p. if p = 21 then 4 else if p = 40 then 8 else 0) = Inr (code', codeMap')
         \<and> loadAt cfg_ex 4 code' 8 = 1610612740
         \<and> loadAt cfg_ex 4 code' 16 = 1073741832
         \<and> code' 7 = 0
         \<and> codeMap' = {8, 16})
   \<and> updateConstants cfg_ex [(22, [])] (\<lambda>a. 0) {} (\<lambda>p. if p = 21 then 4 else if p = 40 then 8 else 0)
       = Inl InvariantViolation"
proof -
  let ?ht = "\<lambda>p :: object. if p = 21 then (4 :: unsigned) else if p = 40 then 8 else 0"
  let ?pl1 = "\<lparr>location = 8, flat = True\<rparr>"
  let ?pl2 = "\<lparr>location = 16, flat = False\<rparr>"
  let ?cs = "[(21 :: object, [?pl1]), (40, [?pl2])]"
  obtain code' codeMap' where
    ok: "updateConstants cfg_ex ?cs (\<lambda>a. 0) {} ?ht = Inr (code', codeMap')"
    by (simp add: updateConstants_def resolveConstant_def resolveListener_def Let_def)
  note T = heap_constant_pass [OF wf_cfg_ex, where constants = ?cs and code = "\<lambda>a. 0"
             and codeMap = "{}" and heapTable = ?ht and code' = code' and codeMap' = codeMap']
  have all: "codeMap' = {} \<union> (\<lambda>pl. unat (word_of_int (location pl) :: unsigned))
                                      ` (\<Union>c \<in> set ?cs. set (snd c))
            \<and> (\<forall>a. (\<forall>c \<in> set ?cs. \<forall>pl \<in> set (snd c). clearOf cfg_ex pl a)
                     \<longrightarrow> code' a = (0 :: byte))
            \<and> (\<forall>cs1 p ls1 pl ls2 cs2.
                  ?cs = cs1 @ (p, ls1 @ pl # ls2) # cs2 \<longrightarrow>
                  (\<exists>c1 m1. updateConstants cfg_ex (cs1 @ [(p, ls1 @ [pl])]) (\<lambda>a. 0) {} ?ht
                              = Inr (c1, m1)
                     \<and> loadAt cfg_ex (unat (TargetBytesPerWord cfg_ex)) c1 (nat (location pl))
                         = uint (?ht p OR BootHeapOffset cfg_ex
                                 OR (if flat pl then BootFlatConstant cfg_ex else 0))
                     \<and> unat (word_of_int (location pl) :: unsigned) \<in> m1)
                  \<and> ((\<forall>pl' \<in> set ls2 \<union> (\<Union>c \<in> set cs2. set (snd c)). apart cfg_ex pl pl') \<longrightarrow>
                       loadAt cfg_ex (unat (TargetBytesPerWord cfg_ex)) code' (nat (location pl))
                         = uint (?ht p OR BootHeapOffset cfg_ex
                                 OR (if flat pl then BootFlatConstant cfg_ex else 0))))"
    using T [THEN conjunct1, THEN mp, OF ok, THEN conjunct2] .
  from all have m: "codeMap' = {8, 16}" by auto
  from all have "(\<forall>c \<in> set ?cs. \<forall>pl \<in> set (snd c). clearOf cfg_ex pl 7) \<longrightarrow> code' 7 = 0"
    by blast
  then have z: "code' 7 = 0" by (simp add: clearOf_def)
  note V = all [THEN conjunct2, THEN conjunct2, rule_format]
  have a: "loadAt cfg_ex 4 code' 8 = 1610612740"
    using V [of "[]" 21 "[]" ?pl1 "[]" "[(40, [?pl2])]", THEN conjunct2]
    by (simp add: apart_def)
  have b: "loadAt cfg_ex 4 code' 16 = 1073741832"
    using V [of "[(21, [?pl1])]" 40 "[]" ?pl2 "[]" "[]", THEN conjunct2]
    by (simp add: apart_def)
  have "\<exists>c \<in> set [(22 :: object, [] :: Listener list)]. ?ht (fst c) = 0" by simp
  with heap_constant_pass [OF wf_cfg_ex, where constants = "[(22, [])]" and heapTable = ?ht]
  have c: "updateConstants cfg_ex [(22, [])] (\<lambda>a. 0) {} ?ht = Inl InvariantViolation"
    by blast
  from ok a b z m c wf_cfg_ex show ?thesis by auto
qed

section \<open>Emission of a fixed object\<close>

text \<open>
  C2, amended. For every object emitted as a fixed object, in the heap as it is before
  the final back-pointer patch: the byte at \<open>TargetFixieAge\<close> of the header is
  \<open>FixieTenureThreshold + 1\<close>, the byte at \<open>TargetFixieHasMask\<close> is 1, and the 32-bit
  field at \<open>TargetFixieSize\<close> holds, in the target's byte order, the object's size in
  target words (the value of \<open>targetSize\<close>, not a number of bytes); the first word of
  the body is what the transcoder left there ORed with \<open>FixedMark\<close>; the
  \<open>ceiling size TargetBytesPerWord\<close> words after the body are 0; and the number
  returned is the word index of the body plus 1.
\<close>

theorem fixie_emission:
  assumes "wf_config cfg" and "p \<noteq> 0" and "isFixed cfg vm v p"
    and "visitNew cfg vm typeMaps p v = Inr (number, v')"
  shows "\<exists>sz v1 h4 h5.
           targetSize cfg vm typeMaps p = Inr sz
         \<and> visitNew_fixed cfg vm typeMaps p sz v = Inr (number, v1)
         \<and> visit cfg vm typeMaps number v1 = Inr v'
         \<and> heap v1 (unat (position v) * unat (TargetBytesPerWord cfg) + TargetFixieAge)
             = ucast (FixieTenureThreshold cfg + 1)
         \<and> heap v1 (unat (position v) * unat (TargetBytesPerWord cfg) + TargetFixieHasMask) = 1
         \<and> load_bytes (heap v1)
               (unat (position v) * unat (TargetBytesPerWord cfg) + TargetFixieSize) 4
             = encode cfg 4 (TARGET_V cfg 4 (uint sz))
         \<and> fixieSizeField cfg (heap v1) (unat (position v) * unat (TargetBytesPerWord cfg))
             = uint sz
         \<and> copyObject cfg vm typeMaps p h4
               ((unat (position v) + unat (TargetFixieSizeInWords cfg))
                * unat (TargetBytesPerWord cfg)) = Inr h5
         \<and> loadWord cfg (heap v1) (unat (position v) + unat (TargetFixieSizeInWords cfg))
             = take_bit (8 * unat (TargetBytesPerWord cfg))
                 (loadWord cfg h5 (unat (position v) + unat (TargetFixieSizeInWords cfg))
                  OR FixedMark cfg)
         \<and> (\<forall>j < unat (ceiling sz (TargetBytesPerWord cfg)).
                loadWord cfg (heap v1)
                  (unat (position v) + unat (TargetFixieSizeInWords cfg) + unat sz + j) = 0)
         \<and> number = position v + TargetFixieSizeInWords cfg + 1"
proof -
  from assms(2,4) obtain sz v1 where
    sz: "targetSize cfg vm typeMaps p = Inr sz"
    and emit: "(if isFixed cfg vm v p then visitNew_fixed cfg vm typeMaps p sz v
                else visitNew_plain cfg vm typeMaps p sz v) = Inr (number, v1)"
    and vis: "visit cfg vm typeMaps number v1 = Inr v'"
    by (rule visitNew_split)
  from emit assms(3) have f: "visitNew_fixed cfg vm typeMaps p sz v = Inr (number, v1)"
    by simp
  from fixie_layout [OF assms(1) f] size_field_reads [of "heap v1" _ cfg sz] sz f vis
  show ?thesis by blast
qed


theorem fixie_emission_witness:
  "wf_config cfg_ex \<and> 40 \<noteq> (0 :: object) \<and> isFixed cfg_ex vm_ex visitor_ex 40
   \<and> (\<exists>v' v1. visitNew cfg_ex vm_ex typeMaps_ex 40 visitor_ex = Inr (8, v')
          \<and> visitNew_fixed cfg_ex vm_ex typeMaps_ex 40 3 visitor_ex = Inr (8, v1)
          \<and> heap v1 12 = 4 \<and> heap v1 13 = 1
          \<and> fixieSizeField cfg_ex (heap v1) 12 = 3
          \<and> loadWord cfg_ex (heap v1) 10 = 0)"
proof -
  obtain v' where v': "visitNew cfg_ex vm_ex typeMaps_ex 40 visitor_ex = Inr (8, v')"
    using visitNew_ex40 by blast
  have p: "40 \<noteq> (0 :: object)" by simp
  from fixie_emission [OF wf_cfg_ex p isFixed_ex40 v'] obtain v1 where
    "visitNew_fixed cfg_ex vm_ex typeMaps_ex 40 3 visitor_ex = Inr (8, v1)"
    "heap v1 12 = 4" "heap v1 13 = 1" "fixieSizeField cfg_ex (heap v1) 12 = 3"
    "\<forall>j < unat (ceiling 3 (TargetBytesPerWord cfg_ex)). loadWord cfg_ex (heap v1) (3 + 4 + 3 + j) = 0"
    by (auto simp: targetSize_ex40 fixie_ex TargetFixieAge_def TargetFixieHasMask_def)
  moreover have "unat (ceiling 3 (TargetBytesPerWord cfg_ex)) = 1" by (simp add: ceiling_def)
  ultimately show ?thesis using v' wf_cfg_ex isFixed_ex40 by auto
qed

text \<open>
  C2 as stated fails: the system class loader of the concrete configuration has a
  target size of 3 words, 12 bytes, and its header's size field holds 3.
\<close>

theorem fixie_size_counterexample:
  "\<not> isl (visitNew cfg_ex vm_ex typeMaps_ex 40 visitor_ex)
   \<and> isFixed cfg_ex vm_ex visitor_ex 40
   \<and> targetSize cfg_ex vm_ex typeMaps_ex 40 = Inr 3
   \<and> fixieSizeField cfg_ex
        (heap (snd (projr (visitNew cfg_ex vm_ex typeMaps_ex 40 visitor_ex))))
        (unat (position visitor_ex) * unat (TargetBytesPerWord cfg_ex))
      \<noteq> 3 * uint (TargetBytesPerWord cfg_ex)"
proof -
  obtain v' where v': "visitNew cfg_ex vm_ex typeMaps_ex 40 visitor_ex = Inr (8, v')"
    using visitNew_ex40 by blast
  have p: "40 \<noteq> (0 :: object)" by simp
  from p v' obtain sz v1 where
    sz: "targetSize cfg_ex vm_ex typeMaps_ex 40 = Inr sz"
    and emit: "(if isFixed cfg_ex vm_ex visitor_ex 40
                then visitNew_fixed cfg_ex vm_ex typeMaps_ex 40 sz visitor_ex
                else visitNew_plain cfg_ex vm_ex typeMaps_ex 40 sz visitor_ex) = Inr (8, v1)"
    and vis: "visit cfg_ex vm_ex typeMaps_ex 8 v1 = Inr v'"
    by (rule visitNew_split)
  from sz have sz3: "sz = 3" by (simp add: targetSize_ex40)
  from emit have f: "visitNew_fixed cfg_ex vm_ex typeMaps_ex 40 3 visitor_ex = Inr (8, v1)"
    by (simp add: isFixed_ex40 sz3)
  from visitNew_fixed_result [OF f] have c: "currentObject v1 = 20" "currentOffset v1 = 1"
    "currentNumber v1 = 1" by simp_all
  have "fixieSizeField cfg_ex (heap v') 12 = fixieSizeField cfg_ex (heap v1) 12"
    by (rule fixieSizeField_cong) (simp add: visit_ex_heap [OF c vis] TargetFixieSize_def)
  also have "\<dots> = 3"
    using fixie_layout [OF wf_cfg_ex f] size_field_reads [of "heap v1" 12 cfg_ex 3]
    by simp
  finally show ?thesis
    by (simp add: v' isFixed_ex40 targetSize_ex40)
qed

section \<open>The constant pool of a class file\<close>

text \<open>
  C10. For a class file whose pool count field is 2, so that its constant pool has
  exactly one entry, that entry being neither \<open>Long\<close> nor \<open>Double\<close>: whenever the pool is
  parsed, a \<open>PoolKind\<close> type map is made, its \<open>fixedFieldCount\<close> is 3, and its fields are
  tagged \<open>object\<close> and \<open>intptr_t\<close> for the pool's own header, followed by one field for the
  entry (tagged \<open>object\<close> or \<open>int32_t\<close>).
\<close>

theorem pool_one_entry:
  assumes "s = m3 # m2 # m1 # m0 # mi1 # mi0 # ma1 # ma0 # 0 # 2 # tag # rest"
    and "tag \<noteq> CONSTANT_Long cfg" and "tag \<noteq> CONSTANT_Double cfg"
    and "makePoolMap cfg s = Inr r"
  shows "\<exists>m ty. r = Some m \<and> kind m = PoolKind \<and> fixedFieldCount m = 3
           \<and> map field_type (fixedFields m) = [Type_object, Type_intptr_t, ty]
           \<and> (ty = Type_object \<or> ty = Type_int32_t)"
proof -
  let ?types0 = "[Type_object, Type_intptr_t, Type_none]"
  from assms(4) have "makePoolMap cfg (m3 # m2 # m1 # m0 # mi1 # mi0 # ma1 # ma0 # 0 # 2 # tag # rest)
                        = Inr r"
    by (simp add: assms(1))
  then have "ebind (poolTypes cfg 3 2 ?types0 (tag # rest))
             (\<lambda>r.
                ebind (installFields
                         (map (\<lambda>i. (word_of_nat i < (3 :: unsigned), fst r ! i,
                                     word_of_nat i * BytesPerWord cfg,
                                     word_of_nat i * TargetBytesPerWord cfg))
                              [0..<3])
                         (newTypeMap cfg 3 3 3 PoolKind 0 0 Type_none))
                  (\<lambda>m. Inr (Some m))) = Inr r"
    unfolding makePoolMap_one
    by (cases "(word_of_int (decodeLE [m0, m1, m2, m3]) :: 32 word) \<noteq> 0xCAFEBABE") simp_all
  then obtain x where x: "poolTypes cfg 3 2 ?types0 (tag # rest) = Inr x"
    and y: "ebind (installFields
                         (map (\<lambda>i. (word_of_nat i < (3 :: unsigned), fst x ! i,
                                     word_of_nat i * BytesPerWord cfg,
                                     word_of_nat i * TargetBytesPerWord cfg))
                              [0..<3])
                         (newTypeMap cfg 3 3 3 PoolKind 0 0 Type_none))
                  (\<lambda>m. Inr (Some m)) = Inr r"
    unfolding ebind_eq_Inr by blast
  obtain types s5 where xs: "x = (types, s5)" by (cases x)
  from x xs have pt: "poolTypes cfg 3 2 ?types0 (tag # rest) = Inr (types, s5)" by simp
  from ebind_Some_Inr [OF y [unfolded xs fst_conv]] obtain m where
    inst: "installFields
                 (map (\<lambda>i. (word_of_nat i < (3 :: unsigned), types ! i,
                             word_of_nat i * BytesPerWord cfg,
                             word_of_nat i * TargetBytesPerWord cfg))
                      [0..<3])
                 (newTypeMap cfg 3 3 3 PoolKind 0 0 Type_none) = Inr m"
    and r: "r = Some m"
    by blast
  have "(3 :: nat) = Suc 2" by simp
  from poolTypes_last [OF assms(2,3) pt this]
  have ty: "types = [Type_object, Type_intptr_t, Type_object]
            \<or> types = [Type_object, Type_intptr_t, Type_int32_t]"
    by simp
  have upt3: "[0..<3] = [0, 1, 2 :: nat]" by (simp add: upt_rec)
  from installFields_result [OF inst]
  have "kind m = PoolKind" "fixedFieldCount m = 3"
    "map field_type (fixedFields m) = types"
    using ty by (auto simp: newTypeMap_def upt3 entryField_def)
  with r ty show ?thesis by auto
qed

theorem pool_one_entry_witness:
  "(1 :: byte) \<noteq> CONSTANT_Long cfg_ex \<and> (1 :: byte) \<noteq> CONSTANT_Double cfg_ex
   \<and> (\<exists>m ty. makePoolMap cfg_ex class_ex = Inr (Some m) \<and> kind m = PoolKind
          \<and> fixedFieldCount m = 3
          \<and> map field_type (fixedFields m) = [Type_object, Type_intptr_t, ty])"
proof -
  obtain m where m: "makePoolMap cfg_ex class_ex = Inr (Some m)"
    using makePoolMap_ex by blast
  have l: "(1 :: byte) \<noteq> CONSTANT_Long cfg_ex" and d: "(1 :: byte) \<noteq> CONSTANT_Double cfg_ex"
    by simp_all
  from pool_one_entry [OF class_ex_def l d m] m l d show ?thesis by auto
qed

section \<open>Fields of type char and short\<close>

text \<open>
  C6. For every field of a class's field table whose code is \<open>CharField\<close> or
  \<open>ShortField\<close>, the builder puts a field with the tag \<open>Type_int8_t\<close> at that field's build
  offset into the map of the instance layout, or into the map of the static table when
  the field is static and the class has a static table; and the transcoder copies
  exactly one byte for a field with this tag.
\<close>

theorem char_short_int8:
  assumes "makeFieldMaps cfg fixedSize statics fieldTable = Inr (memberMap, staticMap)"
    and "f \<in> set fieldTable"
    and "fieldCode f = CharField \<or> fieldCode f = ShortField"
  shows "(\<not> isStatic cfg f \<longrightarrow>
            (\<exists>fld \<in> set (fixedFields memberMap).
               field_offset fld = fieldOffset f \<and> field_type fld = Type_int8_t))
       \<and> (isStatic cfg f \<longrightarrow>
            (\<forall>sm. staticMap = Some sm \<longrightarrow>
               (\<exists>fld \<in> set (fixedFields sm).
                  field_offset fld = fieldOffset f \<and> field_type fld = Type_int8_t)))
       \<and> (\<forall>src s dst d. \<exists>h. copy cfg src s dst d Type_int8_t = Inr h
               \<and> h d = src s \<and> (\<forall>x. x \<noteq> d \<longrightarrow> h x = dst x))"
proof -
  let ?mem = "filter (\<lambda>f. \<not> isStatic cfg f) fieldTable"
  let ?sta = "filter (isStatic cfg) fieldTable"
  have member: "\<exists>fld \<in> set (fixedFields memberMap).
               field_offset fld = fieldOffset f \<and> field_type fld = Type_int8_t"
    if ns: "\<not> isStatic cfg f"
  proof -
    from makeFieldMaps_member [OF assms(1)] obtain st es m0 where
      st: "foldE (scanField cfg) fieldTable (initFieldScan cfg) = Inr st"
      and i: "installFields es m0 = Inr memberMap" "fixedFields m0 = []"
      and e: "map (\<lambda>e. fst (snd e)) es = memberTypes st"
        "map (\<lambda>e. fst (snd (snd e))) es = buildMemberOffsets st"
      by blast
    note l = scanned_lists [OF st]
    from installed_fields [OF i] e
    have a: "map field_type (fixedFields memberMap) = memberTypes st"
      "map field_offset (fixedFields memberMap) = buildMemberOffsets st"
      by simp_all
    from assms(2) ns have "f \<in> set ?mem" by simp
    then obtain k where k: "k < length ?mem" "?mem ! k = f"
      unfolding in_set_conv_nth by blast
    then have "Suc k < length (memberTypes st)" "memberTypes st ! Suc k = Type_int8_t"
      "buildMemberOffsets st ! Suc k = fieldOffset f"
      using tagOf_char_short [OF assms(3), of cfg] by (simp_all add: l)
    from field_at [OF a this] show ?thesis .
  qed
  have static: "\<exists>fld \<in> set (fixedFields sm').
               field_offset fld = fieldOffset f \<and> field_type fld = Type_int8_t"
    if s: "isStatic cfg f" and e: "staticMap = Some sm'" for sm'
  proof -
    from makeFieldMaps_static [OF assms(1) [unfolded e]] obtain st es m0 where
      st: "foldE (scanField cfg) fieldTable (initFieldScan cfg) = Inr st"
      and i: "installFields es m0 = Inr sm'" "fixedFields m0 = []"
      and e: "map (\<lambda>e. fst (snd e)) es = staticTypes st"
        "map (\<lambda>e. fst (snd (snd e))) es = buildStaticOffsets st"
      by blast
    note l = scanned_lists [OF st]
    from installed_fields [OF i] e
    have a: "map field_type (fixedFields sm') = staticTypes st"
      "map field_offset (fixedFields sm') = buildStaticOffsets st"
      by simp_all
    from assms(2) s have "f \<in> set ?sta" by simp
    then obtain k where k: "k < length ?sta" "?sta ! k = f"
      unfolding in_set_conv_nth by blast
    then have "Suc (Suc k) < length (staticTypes st)"
      "staticTypes st ! Suc (Suc k) = Type_int8_t"
      "buildStaticOffsets st ! Suc (Suc k) = fieldOffset f"
      using tagOf_char_short [OF assms(3), of cfg] by (simp_all add: l)
    from field_at [OF a this] show ?thesis .
  qed
  have one_byte: "\<exists>h. copy cfg src s dst d Type_int8_t = Inr h
               \<and> h d = src s \<and> (\<forall>x. x \<noteq> d \<longrightarrow> h x = dst x)" for src s dst d
    by (simp add: copy_def store_bytes_def load_bytes_def)
  from member static one_byte show ?thesis by blast
qed

theorem char_short_int8_witness:
  "field_ex \<in> set [field_ex] \<and> fieldCode field_ex = CharField \<and> \<not> isStatic cfg_ex field_ex
   \<and> (\<exists>mm. makeFieldMaps cfg_ex 16 None [field_ex] = Inr (mm, None)
          \<and> (\<exists>fld \<in> set (fixedFields mm).
                field_offset fld = fieldOffset field_ex \<and> field_type fld = Type_int8_t))"
proof -
  obtain mm where mm: "makeFieldMaps cfg_ex 16 None [field_ex] = Inr (mm, None)"
    using makeFieldMaps_ex by blast
  have a: "field_ex \<in> set [field_ex]" by simp
  have b: "fieldCode field_ex = CharField \<or> fieldCode field_ex = ShortField"
    by (simp add: field_ex_def)
  have c: "\<not> isStatic cfg_ex field_ex" by (simp add: isStatic_def field_ex_def)
  from char_short_int8 [OF mm a b] mm c show ?thesis by (auto simp: field_ex_def)
qed

section \<open>Offset lookup consistency\<close>

text \<open>
  C7. Every type map made by one of the three builders satisfies: for every field \<open>f\<close> of
  its field list, \<open>targetFixedOffsets[f.offset] = f.targetOffset\<close>. For the constant pool
  this holds as it stands; for a field table it holds when the build offsets that the VM
  gives the fields of one partition are pairwise distinct and differ from the offsets of
  the header entries (0 for the instance layout, 0 and \<open>BytesPerWord\<close> for the static
  table); for a type descriptor it holds when the descriptor is short enough for the
  running offsets not to wrap around.
\<close>

theorem offset_lookup_consistency:
  "(wf_config cfg \<and> makePoolMap cfg s = Inr (Some m) \<longrightarrow> offsetsConsistent m)
   \<and> (makeFieldMaps cfg fixedSize statics fieldTable = Inr (mm, sm) \<longrightarrow>
        (distinct (0 # map fieldOffset (filter (\<lambda>f. \<not> isStatic cfg f) fieldTable)) \<longrightarrow>
           offsetsConsistent mm)
        \<and> (\<forall>sm'. sm = Some sm'
              \<and> distinct (0 # BytesPerWord cfg
                            # map fieldOffset (filter (isStatic cfg) fieldTable)) \<longrightarrow>
              offsetsConsistent sm'))
   \<and> (wf_config cfg \<and> 16 * length source + 8 < (2 :: nat) ^ 32
        \<and> makeTypeMap cfg source = Inr m' \<longrightarrow> offsetsConsistent m')"
  using pool_consistent [of cfg s m] fields_consistent [of cfg fixedSize statics fieldTable mm sm]
    typeMap_consistent [of cfg source m']
  by blast

theorem offset_lookup_consistency_witness:
  "wf_config cfg_ex
   \<and> (\<exists>m. makePoolMap cfg_ex class_ex = Inr (Some m) \<and> offsetsConsistent m)
   \<and> (\<exists>mm sm'. makeFieldMaps cfg_ex 16 (Some 1) [field_ex, staticField_ex] = Inr (mm, Some sm')
         \<and> distinct (0 # map fieldOffset
                            (filter (\<lambda>f. \<not> isStatic cfg_ex f) [field_ex, staticField_ex]))
         \<and> distinct (0 # BytesPerWord cfg_ex
                       # map fieldOffset (filter (isStatic cfg_ex) [field_ex, staticField_ex]))
         \<and> offsetsConsistent mm \<and> offsetsConsistent sm')
   \<and> 16 * length descriptor_ex + 8 < (2 :: nat) ^ 32
   \<and> (\<exists>m'. makeTypeMap cfg_ex descriptor_ex = Inr m' \<and> offsetsConsistent m')"
proof -
  obtain m where m: "makePoolMap cfg_ex class_ex = Inr (Some m)"
    using makePoolMap_ex by blast
  obtain mm sm' where f: "makeFieldMaps cfg_ex 16 (Some 1) [field_ex, staticField_ex]
                            = Inr (mm, Some sm')"
    using makeFieldMaps_ex2 by blast
  obtain m' where t: "makeTypeMap cfg_ex descriptor_ex = Inr m'"
    using makeTypeMap_ex by blast
  have d1: "distinct (0 # map fieldOffset
                            (filter (\<lambda>f. \<not> isStatic cfg_ex f) [field_ex, staticField_ex]))"
    and d2: "distinct (0 # BytesPerWord cfg_ex
                       # map fieldOffset (filter (isStatic cfg_ex) [field_ex, staticField_ex]))"
    by (simp_all add: isStatic_def field_ex_def staticField_ex_def)
  have b: "16 * length descriptor_ex + 8 < (2 :: nat) ^ 32" by (simp add: descriptor_ex_def)
  from offset_lookup_consistency [of cfg_ex class_ex m 16 "Some 1" "[field_ex, staticField_ex]"
         mm "Some sm'" descriptor_ex m'] wf_cfg_ex m f t d1 d2 b
  have "offsetsConsistent m" "offsetsConsistent mm" "offsetsConsistent sm'" "offsetsConsistent m'"
    by blast+
  with wf_cfg_ex m f t d1 d2 b show ?thesis by blast
qed

end
